theory Spec2Isabelle
  imports Main "HOL-Library.AList" "HOL-Library.Multiset"
begin

section \<open>JavaScript values, JSON text and the storage medium\<close>

text \<open>
  The application keeps its state in the browser's \<^verbatim>\<open>localStorage\<close>, a map from string
  keys to string values, and moves values in and out of it with \<^verbatim>\<open>JSON.stringify\<close> and
  \<^verbatim>\<open>JSON.parse\<close>. Both are platform functions, not code of the repository; they are
  modelled here on the fragment of JSON the application produces: \<^verbatim>\<open>null\<close>, booleans,
  integer numbers, strings over 8-bit characters, arrays and objects. Fractions, exponents
  and code points above 255 are outside the fragment (the parser rejects them). An object
  is an association list in insertion order with each key once; JavaScript's rule that
  integer-like keys are enumerated first is not modelled.
\<close>

datatype error = SyntaxError | TypeError | ServiceError

datatype json =
    JNull
  | JBool bool
  | JNum int
  | JStr string
  | JArr "json list"
  | JObj "(string \<times> json) list"

subsection \<open>\<^verbatim>\<open>JSON.stringify\<close>\<close>

definition hex_char :: "nat \<Rightarrow> char" where
  "hex_char n = ''0123456789abcdef'' ! n"

fun dec :: "nat \<Rightarrow> string" where
  "dec n = (if n < 10 then [hex_char n] else dec (n div 10) @ [hex_char (n mod 10)])"

declare dec.simps [simp del]

definition show_int :: "int \<Rightarrow> string" where
  "show_int i = (if i < 0 then CHR ''-'' # dec (nat (- i)) else dec (nat i))"

definition escape_char :: "char \<Rightarrow> string" where
  "escape_char c =
    (if c = CHR 0x22 then [CHR 0x5C, CHR 0x22]
     else if c = CHR 0x5C then [CHR 0x5C, CHR 0x5C]
     else if c = CHR 0x08 then [CHR 0x5C, CHR ''b'']
     else if c = CHR 0x0C then [CHR 0x5C, CHR ''f'']
     else if c = CHR 0x0A then [CHR 0x5C, CHR ''n'']
     else if c = CHR 0x0D then [CHR 0x5C, CHR ''r'']
     else if c = CHR 0x09 then [CHR 0x5C, CHR ''t'']
     else if (of_char c :: nat) < 32
       then [CHR 0x5C, CHR ''u'', CHR ''0'', CHR ''0'',
             hex_char (of_char c div 16), hex_char (of_char c mod 16)]
     else [c])"

definition quote :: "string \<Rightarrow> string" where
  "quote s = CHR 0x22 # concat (map escape_char s) @ [CHR 0x22]"

fun JSON_stringify :: "json \<Rightarrow> string"
  and stringify_elems :: "json list \<Rightarrow> string"
  and stringify_members :: "(string \<times> json) list \<Rightarrow> string" where
  "JSON_stringify JNull = ''null''"
| "JSON_stringify (JBool b) = (if b then ''true'' else ''false'')"
| "JSON_stringify (JNum i) = show_int i"
| "JSON_stringify (JStr s) = quote s"
| "JSON_stringify (JArr vs) = CHR ''['' # stringify_elems vs @ '']''"
| "JSON_stringify (JObj kvs) = CHR ''{'' # stringify_members kvs @ ''}''"
| "stringify_elems [] = []"
| "stringify_elems [v] = JSON_stringify v"
| "stringify_elems (v # w # vs) = JSON_stringify v @ CHR '','' # stringify_elems (w # vs)"
| "stringify_members [] = []"
| "stringify_members [(k, v)] = quote k @ CHR '':'' # JSON_stringify v"
| "stringify_members ((k, v) # m # kvs) =
     quote k @ CHR '':'' # JSON_stringify v @ CHR '','' # stringify_members (m # kvs)"

subsection \<open>\<^verbatim>\<open>JSON.parse\<close>\<close>

definition is_ws :: "char \<Rightarrow> bool" where
  "is_ws c = (c = CHR '' '' \<or> c = CHR 0x09 \<or> c = CHR 0x0A \<or> c = CHR 0x0D)"

definition skip_ws :: "string \<Rightarrow> string" where
  "skip_ws s = dropWhile is_ws s"

definition is_digit :: "char \<Rightarrow> bool" where
  "is_digit c = (48 \<le> (of_char c :: nat) \<and> (of_char c :: nat) \<le> 57)"

definition digit_val :: "char \<Rightarrow> nat" where
  "digit_val c = of_char c - 48"

definition hex_val :: "char \<Rightarrow> nat option" where
  "hex_val c =
    (let n = (of_char c :: nat) in
     if 48 \<le> n \<and> n \<le> 57 then Some (n - 48)
     else if 97 \<le> n \<and> n \<le> 102 then Some (n - 87)
     else if 65 \<le> n \<and> n \<le> 70 then Some (n - 55)
     else None)"

definition unescape :: "char \<Rightarrow> char option" where
  "unescape e =
    (if e = CHR 0x22 then Some (CHR 0x22)
     else if e = CHR 0x5C then Some (CHR 0x5C)
     else if e = CHR ''/'' then Some (CHR ''/'')
     else if e = CHR ''b'' then Some (CHR 0x08)
     else if e = CHR ''f'' then Some (CHR 0x0C)
     else if e = CHR ''n'' then Some (CHR 0x0A)
     else if e = CHR ''r'' then Some (CHR 0x0D)
     else if e = CHR ''t'' then Some (CHR 0x09)
     else None)"

definition hex4 :: "char \<Rightarrow> char \<Rightarrow> char \<Rightarrow> char \<Rightarrow> char option" where
  "hex4 a b c d =
    (case (hex_val a, hex_val b, hex_val c, hex_val d) of
       (Some x, Some y, Some z, Some w) \<Rightarrow>
         (if x = 0 \<and> y = 0 then Some (char_of (16 * z + w)) else None)
     | _ \<Rightarrow> None)"

text \<open>The characters of a string literal, read after its opening quote up to the closing one.\<close>

fun parse_chars :: "string \<Rightarrow> (string \<times> string) option" where
  "parse_chars [] = None"
| "parse_chars (c # cs) =
    (if c = CHR 0x22 then Some ([], cs)
     else if c = CHR 0x5C then
       (case cs of
          [] \<Rightarrow> None
        | e # cs' \<Rightarrow>
            (if e = CHR ''u'' then
               (case cs' of
                  a # b # x # y # cs'' \<Rightarrow>
                    (case hex4 a b x y of
                       None \<Rightarrow> None
                     | Some d \<Rightarrow> map_option (\<lambda>(s, r). (d # s, r)) (parse_chars cs''))
                | _ \<Rightarrow> None)
             else
               (case unescape e of
                  None \<Rightarrow> None
                | Some d \<Rightarrow> map_option (\<lambda>(s, r). (d # s, r)) (parse_chars cs'))))
     else if (of_char c :: nat) < 32 then None
     else map_option (\<lambda>(s, r). (c # s, r)) (parse_chars cs))"

fun parse_digits :: "nat \<Rightarrow> string \<Rightarrow> nat \<times> string" where
  "parse_digits acc [] = (acc, [])"
| "parse_digits acc (c # cs) =
    (if is_digit c then parse_digits (acc * 10 + digit_val c) cs else (acc, c # cs))"

definition parse_nat :: "string \<Rightarrow> (nat \<times> string) option" where
  "parse_nat s =
    (case s of
       [] \<Rightarrow> None
     | c # cs \<Rightarrow>
         (if c = CHR ''0'' then Some (0, cs)
          else if is_digit c then Some (parse_digits 0 (c # cs))
          else None))"

definition parse_number :: "string \<Rightarrow> (int \<times> string) option" where
  "parse_number s =
    (case s of
       [] \<Rightarrow> None
     | c # cs \<Rightarrow>
         (if c = CHR ''-'' then map_option (\<lambda>(n, r). (- int n, r)) (parse_nat cs)
          else map_option (\<lambda>(n, r). (int n, r)) (parse_nat s)))"

definition strip_prefix :: "string \<Rightarrow> string \<Rightarrow> string option" where
  "strip_prefix p s = (if take (length p) s = p then Some (drop (length p) s) else None)"

text \<open>
  The recursive-descent parser. The first argument bounds the number of nested calls;
  \<open>JSON_parse\<close> starts it at one more than the length of the text, which is enough for
  every text (\<open>JSON_parse_fuel\<close> below).
  \<open>parse_elems\<close> reads the elements of an array after \<^verbatim>\<open>[\<close>, \<open>parse_members\<close> the
  members of an object after \<^verbatim>\<open>{\<close>; a repeated key keeps its first position and takes
  the last value, as in JavaScript.
\<close>

fun parse_value :: "nat \<Rightarrow> string \<Rightarrow> (json \<times> string) option"
  and parse_elems :: "nat \<Rightarrow> json list \<Rightarrow> string \<Rightarrow> (json \<times> string) option"
  and parse_members :: "nat \<Rightarrow> (string \<times> json) list \<Rightarrow> string \<Rightarrow> (json \<times> string) option" where
  "parse_value 0 s = None"
| "parse_value (Suc n) s =
    (case skip_ws s of
       [] \<Rightarrow> None
     | c # cs \<Rightarrow>
         (if c = CHR 0x22 then map_option (\<lambda>(t, r). (JStr t, r)) (parse_chars cs)
          else if c = CHR ''['' then
            (case skip_ws cs of
               [] \<Rightarrow> None
             | d # ds \<Rightarrow> (if d = CHR '']'' then Some (JArr [], ds) else parse_elems n [] cs))
          else if c = CHR ''{'' then
            (case skip_ws cs of
               [] \<Rightarrow> None
             | d # ds \<Rightarrow> (if d = CHR ''}'' then Some (JObj [], ds) else parse_members n [] cs))
          else if c = CHR ''n'' then map_option (Pair JNull) (strip_prefix ''null'' (c # cs))
          else if c = CHR ''t'' then map_option (Pair (JBool True)) (strip_prefix ''true'' (c # cs))
          else if c = CHR ''f'' then map_option (Pair (JBool False)) (strip_prefix ''false'' (c # cs))
          else map_option (\<lambda>(i, r). (JNum i, r)) (parse_number (c # cs))))"
| "parse_elems 0 acc s = None"
| "parse_elems (Suc n) acc s =
    (case parse_value n s of
       None \<Rightarrow> None
     | Some (v, r) \<Rightarrow>
         (case skip_ws r of
            [] \<Rightarrow> None
          | c # cs \<Rightarrow>
              (if c = CHR '','' then parse_elems n (acc @ [v]) cs
               else if c = CHR '']'' then Some (JArr (acc @ [v]), cs)
               else None)))"
| "parse_members 0 acc s = None"
| "parse_members (Suc n) acc s =
    (case skip_ws s of
       [] \<Rightarrow> None
     | q # s1 \<Rightarrow>
         (if q \<noteq> CHR 0x22 then None
          else
            (case parse_chars s1 of
               None \<Rightarrow> None
             | Some (k, s2) \<Rightarrow>
                 (case skip_ws s2 of
                    [] \<Rightarrow> None
                  | c # s3 \<Rightarrow>
                      (if c \<noteq> CHR '':'' then None
                       else
                         (case parse_value n s3 of
                            None \<Rightarrow> None
                          | Some (v, s4) \<Rightarrow>
                              (case skip_ws s4 of
                                 [] \<Rightarrow> None
                               | d # s5 \<Rightarrow>
                                   (if d = CHR '','' then parse_members n (AList.update k v acc) s5
                                    else if d = CHR ''}''
                                      then Some (JObj (AList.update k v acc), s5)
                                    else None))))))))"

definition JSON_parse :: "string \<Rightarrow> error + json" where
  "JSON_parse s =
    (case parse_value (Suc (length s)) s of
       None \<Rightarrow> Inl SyntaxError
     | Some (v, r) \<Rightarrow> (if skip_ws r = [] then Inr v else Inl SyntaxError))"


text \<open>
  A JSON value denotes a JavaScript value when no object in it repeats a key. Every value
  \<open>JSON_parse\<close> returns is of this kind, and on such values parsing undoes
  \<open>JSON_stringify\<close>.
\<close>

fun distinct_keys :: "json \<Rightarrow> bool"
  and distinct_keys_elems :: "json list \<Rightarrow> bool"
  and distinct_keys_members :: "(string \<times> json) list \<Rightarrow> bool" where
  "distinct_keys (JArr vs) = distinct_keys_elems vs"
| "distinct_keys (JObj kvs) = (distinct (map fst kvs) \<and> distinct_keys_members kvs)"
| "distinct_keys JNull = True"
| "distinct_keys (JBool b) = True"
| "distinct_keys (JNum i) = True"
| "distinct_keys (JStr s) = True"
| "distinct_keys_elems [] = True"
| "distinct_keys_elems (v # vs) = (distinct_keys v \<and> distinct_keys_elems vs)"
| "distinct_keys_members [] = True"
| "distinct_keys_members ((k, v) # kvs) = (distinct_keys v \<and> distinct_keys_members kvs)"

definition no_digit :: "string \<Rightarrow> bool" where
  "no_digit s = (case s of [] \<Rightarrow> True | c # _ \<Rightarrow> \<not> is_digit c)"

definition closes :: "string \<Rightarrow> bool" where
  "closes s = (case s of [] \<Rightarrow> True | c # _ \<Rightarrow> c = CHR '','' \<or> c = CHR '']'' \<or> c = CHR ''}'')"

subsection \<open>Property access and strict equality\<close>

text \<open>
  \<^verbatim>\<open>u.k\<close> for the property names the application reads (\<^verbatim>\<open>id\<close>, \<^verbatim>\<open>username\<close>):
  reading a property of \<^verbatim>\<open>null\<close> raises \<^verbatim>\<open>TypeError\<close>; an object yields the member or
  \<^verbatim>\<open>undefined\<close> (\<open>None\<close>); every other value yields \<^verbatim>\<open>undefined\<close>.
  \<^verbatim>\<open>===\<close> compares primitives by value; two arrays or objects are equal only when they
  are the same reference, which a freshly parsed value never is.
\<close>

definition get_prop :: "json \<Rightarrow> string \<Rightarrow> error + json option" where
  "get_prop u k =
    (case u of
       JNull \<Rightarrow> Inl TypeError
     | JObj kvs \<Rightarrow> Inr (map_of kvs k)
     | _ \<Rightarrow> Inr None)"

fun strict_eq :: "json option \<Rightarrow> json option \<Rightarrow> bool" where
  "strict_eq None None = True"
| "strict_eq (Some JNull) (Some JNull) = True"
| "strict_eq (Some (JBool a)) (Some (JBool b)) = (a = b)"
| "strict_eq (Some (JNum a)) (Some (JNum b)) = (a = b)"
| "strict_eq (Some (JStr a)) (Some (JStr b)) = (a = b)"
| "strict_eq _ _ = False"

text \<open>\<^verbatim>\<open>Array.prototype.findIndex\<close>: the first index whose element satisfies the callback, or -1.\<close>

fun findIndex_from :: "(json \<Rightarrow> error + bool) \<Rightarrow> int \<Rightarrow> json list \<Rightarrow> error + int" where
  "findIndex_from p i [] = Inr (- 1)"
| "findIndex_from p i (u # us) =
    (case p u of
       Inl e \<Rightarrow> Inl e
     | Inr b \<Rightarrow> (if b then Inr i else findIndex_from p (i + 1) us))"

definition findIndex :: "(json \<Rightarrow> error + bool) \<Rightarrow> json list \<Rightarrow> error + int" where
  "findIndex p us = findIndex_from p 0 us"

subsection \<open>\<^verbatim>\<open>localStorage\<close>\<close>

type_synonym storage = "string \<Rightarrow> string option"

definition getItem :: "storage \<Rightarrow> string \<Rightarrow> string option" where
  "getItem st k = st k"

definition setItem :: "storage \<Rightarrow> string \<Rightarrow> string \<Rightarrow> storage" where
  "setItem st k v = st(k \<mapsto> v)"

text \<open>
  Writes are taken to succeed: the quota of the medium is not modelled.
  \<^verbatim>\<open>x || d\<close> on the result of \<^verbatim>\<open>getItem\<close>: \<^verbatim>\<open>null\<close> and the empty string are falsy.
\<close>

definition or_else :: "string option \<Rightarrow> string \<Rightarrow> string" where
  "or_else x d = (case x of None \<Rightarrow> d | Some s \<Rightarrow> (if s = [] then d else s))"

section \<open>The \<^verbatim>\<open>DB\<close> object\<close>

text \<open>
  \<^verbatim>\<open>
  const DB = {
    getUsers: (): User[] => JSON.parse(localStorage.getItem('mp_users') || '[]'),
    saveUser: (user: User) => {
      const users = DB.getUsers();
      const index = users.findIndex(u => u.id === user.id);
      if (index > -1) users[index] = user;
      else users.push(user);
      localStorage.setItem('mp_users', JSON.stringify(users));
    },
    getCurrentUser: (): User | null => JSON.parse(localStorage.getItem('mp_current_user') || 'null'),
    setCurrentUser: (user: User | null) => localStorage.setItem('mp_current_user', JSON.stringify(user)),
    getNetwork: (): SharedSheet[] => JSON.parse(localStorage.getItem('mp_network') || '[]'),
  };
  \<close>
  This is the later version. The earlier one (\<^verbatim>\<open>src/App.tsx\<close>) has no
  \<^verbatim>\<open>getNetwork\<close>, and its \<^verbatim>\<open>saveUser\<close> compares \<^verbatim>\<open>u.username === user.username\<close>;
  the rest is the same text.
  The type annotations are erased at run time, so what \<open>getUsers\<close> returns is whatever the
  stored text parses to, and a text that does not parse raises \<^verbatim>\<open>SyntaxError\<close>:
  no function of \<^verbatim>\<open>DB\<close> has a \<^verbatim>\<open>try\<close>.
\<close>

definition getUsers :: "storage \<Rightarrow> error + json" where
  "getUsers st = JSON_parse (or_else (getItem st ''mp_users'') ''[]'')"

definition same_prop :: "string \<Rightarrow> json \<Rightarrow> json \<Rightarrow> error + bool" where
  "same_prop k new u =
    (case get_prop u k of
       Inl e \<Rightarrow> Inl e
     | Inr a \<Rightarrow> (case get_prop new k of Inl e \<Rightarrow> Inl e | Inr b \<Rightarrow> Inr (strict_eq a b)))"

definition saveUser_by :: "string \<Rightarrow> storage \<Rightarrow> json \<Rightarrow> error + storage" where
  "saveUser_by k st new =
    (case getUsers st of
       Inl e \<Rightarrow> Inl e
     | Inr users \<Rightarrow>
         (case users of
            JArr us \<Rightarrow>
              (case findIndex (same_prop k new) us of
                 Inl e \<Rightarrow> Inl e
               | Inr i \<Rightarrow>
                   Inr (setItem st ''mp_users''
                     (JSON_stringify (JArr (if i > - 1 then us[nat i := new] else us @ [new])))))
          | _ \<Rightarrow> Inl TypeError))"

definition saveUser :: "storage \<Rightarrow> json \<Rightarrow> error + storage" where
  "saveUser = saveUser_by ''id''"

definition saveUser_basic :: "storage \<Rightarrow> json \<Rightarrow> error + storage" where
  "saveUser_basic = saveUser_by ''username''"

definition getCurrentUser :: "storage \<Rightarrow> error + json" where
  "getCurrentUser st = JSON_parse (or_else (getItem st ''mp_current_user'') ''null'')"

definition setCurrentUser :: "storage \<Rightarrow> json \<Rightarrow> storage" where
  "setCurrentUser st new = setItem st ''mp_current_user'' (JSON_stringify new)"

definition getNetwork :: "storage \<Rightarrow> error + json" where
  "getNetwork st = JSON_parse (or_else (getItem st ''mp_network'') ''[]'')"

text \<open>
  The contract of \<^verbatim>\<open>saveUser\<close> in the specification's words, to compare the code with:
  ``replace if an entry with the same identity exists, else append''. \<open>has_prop k x e\<close> says
  that the stored entry \<open>e\<close> has the value \<open>x\<close> under the property \<open>k\<close>.
\<close>

fun upsert :: "(json \<Rightarrow> bool) \<Rightarrow> json \<Rightarrow> json list \<Rightarrow> json list" where
  "upsert same new [] = [new]"
| "upsert same new (e # es) = (if same e then new # es else e # upsert same new es)"

definition has_prop :: "string \<Rightarrow> json \<Rightarrow> json \<Rightarrow> bool" where
  "has_prop k x e = (get_prop e k = Inr (Some x))"

section \<open>The data model (\<^verbatim>\<open>types.ts\<close>)\<close>

text \<open>
  The later version of the application (the file without a name under \<^verbatim>\<open>src/unnamed\<close>)
  keeps the names of the source; the earlier one (\<^verbatim>\<open>src/App.tsx\<close>), which has no
  mastery map, no profile and no sheet id, carries the suffix \<open>_basic\<close>. Numbers are
  integers: every number the application itself computes is one.
\<close>

subsection \<open>The entries of a \<^verbatim>\<open>Record<string, number>\<close>\<close>

text \<open>
  The mastery maps are plain objects used as dictionaries. Their type says that an entry
  is a number; at run time it is what the arithmetic of the application leaves there: an
  integer, \<^verbatim>\<open>NaN\<close>, or a string. A plain object also answers for the property names it
  inherits from \<^verbatim>\<open>Object.prototype\<close>: eleven functions and the accessor
  \<^verbatim>\<open>__proto__\<close>, which yields the prototype object. The application only tests such a
  value for truth, adds to it and subtracts from it, and all three see of a function or an
  object no more than its conversion to a string (a non-empty string, as the value is
  truthy). An inherited value is therefore represented by that string, as the V8 engine
  prints it. A map read back from the storage has \<^verbatim>\<open>null\<close> where \<^verbatim>\<open>NaN\<close> was written;
  \<^verbatim>\<open>null\<close> is falsy and is written as \<^verbatim>\<open>null\<close> again, as \<^verbatim>\<open>NaN\<close> is, and the
  application reads an entry of a user's map in no other way, so \<open>NaN\<close> stands for both.
\<close>

datatype jsval = Num int | NaN | Str string

definition native_function :: "string \<Rightarrow> string" where
  "native_function f = ''function '' @ f @ ''() { [native code] }''"

definition inherited :: "string \<Rightarrow> jsval option" where
  "inherited k =
    (if k = ''constructor'' then Some (Str (native_function ''Object''))
     else if k \<in> set [''toString'', ''toLocaleString'', ''valueOf'', ''hasOwnProperty'',
                       ''isPrototypeOf'', ''propertyIsEnumerable'', ''__defineGetter__'',
                       ''__defineSetter__'', ''__lookupGetter__'', ''__lookupSetter__'']
       then Some (Str (native_function k))
     else if k = ''__proto__'' then Some (Str ''[object Object]'')
     else None)"

datatype QuestionType = MultipleChoice | ShortAnswer | Explain

record QuizQuestion =
  question_id :: string
  question_type :: QuestionType
  question :: string
  options :: "string list option"
  correctAnswer :: string
  hint :: "string option"
  conceptId :: string

record QuizFeedback =
  isCorrect :: bool
  message :: string
  correction :: "string option"
  memoryTip :: "string option"

text \<open>
  One entry of \<^verbatim>\<open>quizHistory\<close>: \<^verbatim>\<open>{ date, score, total, sheetId }\<close>; the earlier
  version's entries have no \<^verbatim>\<open>sheetId\<close>.
\<close>

record QuizRecord =
  date :: string
  quiz_score :: int
  total :: int
  sheetId :: "string option"

record UserProfile =
  subject :: string
  academicLevel :: string
  learningStyle :: string
  mnemonicPref :: string
  examDate :: "string option"
  dailyTimeLimit :: "int option"

type_synonym masteries = "(string \<times> jsval) list"

record User =
  user_id :: string
  username :: string
  profile :: UserProfile
  weakAreas :: "string list"
  quizHistory :: "QuizRecord list"
  library :: "string list"
  conceptMastery :: masteries

record User_basic =
  user_id_basic :: string
  username_basic :: string
  weakAreas_basic :: "string list"
  quizHistory_basic :: "QuizRecord list"

record StudyData =
  sheet_id :: string
  title :: string

datatype AppMode = Landing | Processing | Dashboard | Quiz | Exam | Auth | Profile | Network

text \<open>
  The JavaScript object that a value of each TypeScript type is, as \<^verbatim>\<open>JSON.stringify\<close>
  sees it; \<^verbatim>\<open>NaN\<close> is written as \<^verbatim>\<open>null\<close>.
\<close>

definition jsval_json :: "jsval \<Rightarrow> json" where
  "jsval_json v = (case v of Num n \<Rightarrow> JNum n | NaN \<Rightarrow> JNull | Str t \<Rightarrow> JStr t)"

definition optional :: "string \<Rightarrow> ('a \<Rightarrow> json) \<Rightarrow> 'a option \<Rightarrow> (string \<times> json) list" where
  "optional k f x = (case x of None \<Rightarrow> [] | Some a \<Rightarrow> [(k, f a)])"

definition QuizRecord_json :: "QuizRecord \<Rightarrow> json" where
  "QuizRecord_json h =
    JObj ([(''date'', JStr (date h)), (''score'', JNum (quiz_score h)), (''total'', JNum (total h))]
          @ optional ''sheetId'' JStr (sheetId h))"

definition UserProfile_json :: "UserProfile \<Rightarrow> json" where
  "UserProfile_json p =
    JObj ([(''subject'', JStr (subject p)), (''academicLevel'', JStr (academicLevel p)),
           (''learningStyle'', JStr (learningStyle p)), (''mnemonicPref'', JStr (mnemonicPref p))]
          @ optional ''examDate'' JStr (examDate p)
          @ optional ''dailyTimeLimit'' JNum (dailyTimeLimit p))"

definition User_json :: "User \<Rightarrow> json" where
  "User_json u =
    JObj [(''id'', JStr (user_id u)), (''username'', JStr (username u)),
          (''profile'', UserProfile_json (profile u)),
          (''weakAreas'', JArr (map JStr (weakAreas u))),
          (''quizHistory'', JArr (map QuizRecord_json (quizHistory u))),
          (''library'', JArr (map JStr (library u))),
          (''conceptMastery'', JObj (map (\<lambda>(c, v). (c, jsval_json v)) (conceptMastery u)))]"

definition User_basic_json :: "User_basic \<Rightarrow> json" where
  "User_basic_json u =
    JObj [(''id'', JStr (user_id_basic u)), (''username'', JStr (username_basic u)),
          (''weakAreas'', JArr (map JStr (weakAreas_basic u))),
          (''quizHistory'', JArr (map QuizRecord_json (quizHistory_basic u)))]"

section \<open>The quiz view\<close>

text \<open>
  \<^verbatim>\<open>String.prototype.trim\<close> on 8-bit characters: tab, line feed, vertical tab, form feed,
  carriage return, space and no-break space are white space.
\<close>

definition is_space :: "char \<Rightarrow> bool" where
  "is_space c = (c = CHR 0x09 \<or> c = CHR 0x0A \<or> c = CHR 0x0B \<or> c = CHR 0x0C \<or> c = CHR 0x0D
                 \<or> c = CHR 0x20 \<or> c = CHR 0xA0)"

definition trim :: "string \<Rightarrow> string" where
  "trim s = rev (dropWhile is_space (rev (dropWhile is_space s)))"

text \<open>
  A \<^verbatim>\<open>Record<string, number>\<close> is an association list of its own properties in the
  order of their creation. \<open>js_get m k\<close> is \<^verbatim>\<open>m[k]\<close>: the object's own entry, else the
  inherited one, else \<^verbatim>\<open>undefined\<close> (\<open>None\<close>). \<open>or0 x\<close> is \<^verbatim>\<open>x || 0\<close>:
  \<^verbatim>\<open>undefined\<close>, 0, \<^verbatim>\<open>NaN\<close> and the empty string are falsy.
\<close>

definition js_get :: "masteries \<Rightarrow> string \<Rightarrow> jsval option" where
  "js_get m k = (case map_of m k of Some v \<Rightarrow> Some v | None \<Rightarrow> inherited k)"

definition or0 :: "jsval option \<Rightarrow> jsval" where
  "or0 x =
    (case x of
       None \<Rightarrow> Num 0
     | Some (Num n) \<Rightarrow> Num n
     | Some NaN \<Rightarrow> Num 0
     | Some (Str t) \<Rightarrow> (if t = [] then Num 0 else Str t))"

text \<open>
  The conversions and operators the two handlers apply to an entry. A string converts to a
  number when, trimmed, it is empty (0) or an optionally signed run of digits; the other
  numeric literals of JavaScript (fractions, exponents, radix prefixes, \<^verbatim>\<open>Infinity\<close>) are
  outside the integers of the model and convert to \<^verbatim>\<open>NaN\<close> here; a number converts to
  its decimal digits (as JavaScript prints an integer of at most 21 digits). \<^verbatim>\<open>x + y\<close> joins the
  string conversions when either side is a string and adds otherwise; \<^verbatim>\<open>x - y\<close>,
  \<^verbatim>\<open>Math.max\<close> and \<^verbatim>\<open>Math.min\<close> convert both sides to numbers, and any \<^verbatim>\<open>NaN\<close> makes
  the result \<^verbatim>\<open>NaN\<close>.
\<close>

definition to_string :: "jsval \<Rightarrow> string" where
  "to_string v = (case v of Num n \<Rightarrow> show_int n | NaN \<Rightarrow> ''NaN'' | Str t \<Rightarrow> t)"

definition digits_to_number :: "string \<Rightarrow> jsval" where
  "digits_to_number ds =
    (if ds \<noteq> [] \<and> list_all is_digit ds then Num (int (fst (parse_digits 0 ds))) else NaN)"

definition negate :: "jsval \<Rightarrow> jsval" where
  "negate v = (case v of Num n \<Rightarrow> Num (- n) | _ \<Rightarrow> NaN)"

definition string_to_number :: "string \<Rightarrow> jsval" where
  "string_to_number t =
    (case trim t of
       [] \<Rightarrow> Num 0
     | c # cs \<Rightarrow>
         (if c = CHR ''-'' then negate (digits_to_number cs)
          else if c = CHR ''+'' then digits_to_number cs
          else digits_to_number (c # cs)))"

definition to_number :: "jsval \<Rightarrow> jsval" where
  "to_number v = (case v of Str t \<Rightarrow> string_to_number t | _ \<Rightarrow> v)"

definition js_add :: "jsval \<Rightarrow> jsval \<Rightarrow> jsval" where
  "js_add x y =
    (case (x, y) of
       (Num a, Num b) \<Rightarrow> Num (a + b)
     | (Str t, _) \<Rightarrow> Str (t @ to_string y)
     | (_, Str t) \<Rightarrow> Str (to_string x @ t)
     | _ \<Rightarrow> NaN)"

definition js_sub :: "jsval \<Rightarrow> jsval \<Rightarrow> jsval" where
  "js_sub x y =
    (case (to_number x, to_number y) of (Num a, Num b) \<Rightarrow> Num (a - b) | _ \<Rightarrow> NaN)"

definition Math_max :: "jsval \<Rightarrow> jsval \<Rightarrow> jsval" where
  "Math_max x y =
    (case (to_number x, to_number y) of (Num a, Num b) \<Rightarrow> Num (max a b) | _ \<Rightarrow> NaN)"

definition Math_min :: "jsval \<Rightarrow> jsval \<Rightarrow> jsval" where
  "Math_min x y =
    (case (to_number x, to_number y) of (Num a, Num b) \<Rightarrow> Num (min a b) | _ \<Rightarrow> NaN)"

text \<open>
  The assignment \<^verbatim>\<open>m[k] = x\<close> of a number or string \<open>x\<close> makes or changes an own
  property, with one exception: when \<^verbatim>\<open>__proto__\<close> is not an own property, the
  assignment reaches the inherited setter, which ignores a value that is no object. The
  object literal \<^verbatim>\<open>{ ...m, [k]: x }\<close> copies the own properties and defines \<open>k\<close> as an
  own property in every case: that is \<open>AList.update\<close>.
\<close>

definition js_set :: "masteries \<Rightarrow> string \<Rightarrow> jsval \<Rightarrow> masteries" where
  "js_set m k x =
    (if k = ''__proto__'' \<and> map_of m k = None then m else AList.update k x m)"

text \<open>
  The state of \<^verbatim>\<open>QuizView\<close> (its six \<^verbatim>\<open>useState\<close> cells), and what a step of the view
  leads to: the view goes on, or it calls its \<^verbatim>\<open>onComplete\<close> property.
\<close>

record QuizView =
  index :: nat
  score :: int
  answer :: string
  feedback :: "QuizFeedback option"
  loading :: bool
  masteries :: masteries

datatype ('v, 'r) progress = Continue 'v | Complete 'r

definition QuizView_init :: QuizView where
  "QuizView_init = \<lparr>index = 0, score = 0, answer = [], feedback = None, loading = False,
                    masteries = []\<rparr>"

text \<open>\<^verbatim>\<open>const current = questions[index]\<close>, \<^verbatim>\<open>undefined\<close> out of range.\<close>

definition current :: "QuizQuestion list \<Rightarrow> QuizView \<Rightarrow> QuizQuestion option" where
  "current qs v = (if index v < length qs then Some (qs ! index v) else None)"

definition grading_failed :: QuizFeedback where
  "grading_failed = \<lparr>isCorrect = False, message = ''Could not grade answer.'',
                      correction = None, memoryTip = Some []\<rparr>"

text \<open>
  \<^verbatim>\<open>
  const handleSubmit = async () => {
    if (!answer.trim() || loading) return;
    setLoading(true);
    try {
      const result = await gradeAnswer(current, answer);
      setFeedback(result);
      if (result.isCorrect) {
        setScore(prev => prev + 1);
        setMasteries(prev => ({ ...prev, [current.conceptId]: (prev[current.conceptId] || 0) + 10 }));
      } else {
        setMasteries(prev => ({ ...prev,
          [current.conceptId]: Math.max(0, (prev[current.conceptId] || 0) - 5) }));
      }
    } catch (e) {
      alert("Grading failed. Moving to next question.");
      setFeedback({ isCorrect: false, message: "Could not grade answer.", memoryTip: "" });
    } finally {
      setLoading(false);
    }
  };
  \<close>
  The grading service is outside the program: what \<^verbatim>\<open>gradeAnswer\<close> resolves to, or the
  exception it rejects with, is the argument \<open>result\<close>. With no current question the call
  itself raises inside the \<^verbatim>\<open>try\<close>, so that case takes the \<^verbatim>\<open>catch\<close> branch too.
  The handler is taken as one step: while it waits, the button that starts it is disabled.
\<close>

definition handleSubmit ::
  "QuizQuestion list \<Rightarrow> error + QuizFeedback \<Rightarrow> QuizView \<Rightarrow> QuizView" where
  "handleSubmit qs result v =
    (if trim (answer v) = [] \<or> loading v then v
     else
       (case (result, current qs v) of
          (Inr res, Some cur) \<Rightarrow>
            (let prev = masteries v; cid = conceptId cur in
             if isCorrect res
             then v\<lparr>feedback := Some res, score := score v + 1,
                    masteries := AList.update cid (js_add (or0 (js_get prev cid)) (Num 10)) prev,
                    loading := False\<rparr>
             else v\<lparr>feedback := Some res,
                    masteries :=
                      AList.update cid
                        (Math_max (Num 0) (js_sub (or0 (js_get prev cid)) (Num 5))) prev,
                    loading := False\<rparr>)
        | _ \<Rightarrow> v\<lparr>feedback := Some grading_failed, loading := False\<rparr>))"

text \<open>
  \<^verbatim>\<open>
  const next = () => {
    if (index < questions.length - 1) {
      setIndex(prev => prev + 1); setAnswer(''); setFeedback(null);
    } else {
      onComplete(score, masteries);
    }
  };
  \<close>
\<close>

definition next_question ::
  "QuizQuestion list \<Rightarrow> QuizView \<Rightarrow> (QuizView, int \<times> masteries) progress" where
  "next_question qs v =
    (if int (index v) < int (length qs) - 1
     then Continue (v\<lparr>index := index v + 1, answer := [], feedback := None\<rparr>)
     else Complete (score v, masteries v))"

text \<open>
  A session as the view lets the user play it. Each input is an answer typed into the text
  area together with what the grading service then returns. The submit button is shown
  only while there is no feedback, the next button only once there is: after a submission
  the user presses next when it is there, and answers again when it is not. The result is
  paired with the inputs that were left when the view completed.
\<close>

fun quiz_session ::
  "QuizQuestion list \<Rightarrow> (string \<times> (error + QuizFeedback)) list \<Rightarrow> QuizView
     \<Rightarrow> (QuizView, int \<times> masteries) progress \<times> (string \<times> (error + QuizFeedback)) list" where
  "quiz_session qs [] v = (Continue v, [])"
| "quiz_session qs ((a, result) # inputs) v =
    (let v1 = handleSubmit qs result (v\<lparr>answer := a\<rparr>) in
     if feedback v1 = None then quiz_session qs inputs v1
     else
       (case next_question qs v1 of
          Continue v2 \<Rightarrow> quiz_session qs inputs v2
        | Complete r \<Rightarrow> (Complete r, inputs)))"

text \<open>The earlier version of the view: a score, no mastery map, and a countdown in exam mode.\<close>

record QuizView_basic =
  currentIdx :: nat
  userAnswer :: string
  feedback_basic :: "QuizFeedback option"
  loadingFeedback :: bool
  score_basic :: int
  timeLeft :: int

definition QuizView_basic_init :: "QuizQuestion list \<Rightarrow> bool \<Rightarrow> QuizView_basic" where
  "QuizView_basic_init qs isExam =
    \<lparr>currentIdx = 0, userAnswer = [], feedback_basic = None, loadingFeedback = False,
     score_basic = 0, timeLeft = (if isExam then int (length qs) * 45 else 0)\<rparr>"

text \<open>
  \<^verbatim>\<open>
  const handleSubmit = async () => {
    if (!userAnswer.trim()) return;
    setLoadingFeedback(true);
    try {
      const res = await gradeAnswer(currentQ, userAnswer);
      setFeedback(res);
      if (res.isCorrect) setScore(prev => prev + 1);
    } catch (err) {
      console.error(err);
    } finally {
      setLoadingFeedback(false);
    }
  };
  \<close>
\<close>

definition handleSubmit_basic ::
  "QuizQuestion list \<Rightarrow> error + QuizFeedback \<Rightarrow> QuizView_basic \<Rightarrow> QuizView_basic" where
  "handleSubmit_basic qs result v =
    (if trim (userAnswer v) = [] then v
     else
       (case result of
          Inr res \<Rightarrow>
            (if currentIdx v < length qs
             then
               (if isCorrect res
                then v\<lparr>feedback_basic := Some res, score_basic := score_basic v + 1,
                       loadingFeedback := False\<rparr>
                else v\<lparr>feedback_basic := Some res, loadingFeedback := False\<rparr>)
             else v\<lparr>loadingFeedback := False\<rparr>)
        | Inl e \<Rightarrow> v\<lparr>loadingFeedback := False\<rparr>))"

definition handleNext ::
  "QuizQuestion list \<Rightarrow> QuizView_basic \<Rightarrow> (QuizView_basic, int) progress" where
  "handleNext qs v =
    (if int (currentIdx v) < int (length qs) - 1
     then Continue (v\<lparr>currentIdx := currentIdx v + 1, userAnswer := [], feedback_basic := None\<rparr>)
     else Complete (score_basic v))"

text \<open>
  One second of the countdown:
  \<^verbatim>\<open>
  if (isExam && timeLeft > 0) {
    const timer = setInterval(() => setTimeLeft(prev => {
      if (prev <= 1) { onComplete(score); return 0; }
      return prev - 1;
    }), 1000);
  \<close>
\<close>

definition tick :: "bool \<Rightarrow> QuizView_basic \<Rightarrow> (QuizView_basic, int) progress" where
  "tick isExam v =
    (if isExam \<and> timeLeft v > 0
     then (if timeLeft v \<le> 1 then Complete (score_basic v)
           else Continue (v\<lparr>timeLeft := timeLeft v - 1\<rparr>))
     else Continue v)"

datatype quiz_event = Answer string "error + QuizFeedback" | Tick

text \<open>
  A session of the earlier view: the inputs of the later one, and seconds passing.
\<close>

fun quiz_session_basic ::
  "QuizQuestion list \<Rightarrow> bool \<Rightarrow> quiz_event list \<Rightarrow> QuizView_basic
     \<Rightarrow> (QuizView_basic, int) progress \<times> quiz_event list" where
  "quiz_session_basic qs isExam [] v = (Continue v, [])"
| "quiz_session_basic qs isExam (Tick # events) v =
    (case tick isExam v of
       Continue v1 \<Rightarrow> quiz_session_basic qs isExam events v1
     | Complete s \<Rightarrow> (Complete s, events))"
| "quiz_session_basic qs isExam (Answer a result # events) v =
    (let v1 = handleSubmit_basic qs result (v\<lparr>userAnswer := a\<rparr>) in
     if feedback_basic v1 = None then quiz_session_basic qs isExam events v1
     else
       (case handleNext qs v1 of
          Continue v2 \<Rightarrow> quiz_session_basic qs isExam events v2
        | Complete s \<Rightarrow> (Complete s, events)))"


text \<open>The number of grading outcomes with \<^verbatim>\<open>isCorrect = true\<close>; a failed call is no outcome.\<close>

definition is_correct :: "error + QuizFeedback \<Rightarrow> bool" where
  "is_correct r = (case r of Inl e \<Rightarrow> False | Inr res \<Rightarrow> isCorrect res)"

definition correct_count :: "(error + QuizFeedback) list \<Rightarrow> int" where
  "correct_count rs = int (length (filter is_correct rs))"

fun event_result :: "quiz_event \<Rightarrow> (error + QuizFeedback) list" where
  "event_result (Answer a r) = [r]"
| "event_result Tick = []"

definition answered :: "quiz_event \<Rightarrow> bool" where
  "answered e = (case e of Answer a r \<Rightarrow> trim a \<noteq> [] | Tick \<Rightarrow> True)"

text \<open>The score a session of the earlier view has reached, whether or not it has completed.\<close>

definition score_so_far :: "(QuizView_basic, int) progress \<Rightarrow> int" where
  "score_so_far p = (case p of Continue v \<Rightarrow> score_basic v | Complete s \<Rightarrow> s)"

section \<open>The application\<close>

record App =
  mode :: AppMode
  user :: "User option"
  studyData :: "StudyData option"
  questions :: "QuizQuestion list"
  localStorage :: storage

text \<open>
  The loop of \<^verbatim>\<open>onComplete\<close> over the session's map:
  \<^verbatim>\<open>
  Object.entries(masteries).forEach(([cid, increase]) => {
    updatedUser.conceptMastery[cid] =
      Math.min(100, (updatedUser.conceptMastery[cid] || 0) + (increase as number));
  });
  \<close>
\<close>

fun merge_masteries :: "masteries \<Rightarrow> masteries \<Rightarrow> masteries" where
  "merge_masteries [] cm = cm"
| "merge_masteries ((cid, increase) # entries) cm =
     merge_masteries entries
       (js_set cm cid (Math_min (Num 100) (js_add (or0 (js_get cm cid)) increase)))"

text \<open>
  \<^verbatim>\<open>
  onComplete={(s, masteries) => {
    const updatedUser = { ...user! };
    updatedUser.quizHistory.push({ date: new Date().toISOString(), score: s,
                                   total: questions.length, sheetId: studyData!.id });
    Object.entries(masteries).forEach(...);
    DB.saveUser(updatedUser);
    setUser(updatedUser);
    setMode('dashboard');
    alert(`Session Mastered! Score: ${s}/${questions.length}`);
  }}
  \<close>
  The clock is the argument \<open>now\<close>. \<open>updatedUser\<close> is the record the handler builds before
  it saves it. Without a user or a sheet the handler raises \<^verbatim>\<open>TypeError\<close> (the view is
  only shown when both are there). The spread copies one level only, so the push and the
  assignments also reach the history array and the mastery object of the old \<^verbatim>\<open>user\<close>;
  the handler replaces \<^verbatim>\<open>user\<close> by \<^verbatim>\<open>updatedUser\<close> right after, and the model keeps the
  new record only. When \<^verbatim>\<open>saveUser\<close> raises, the handler stops there and the model
  returns the error.
\<close>

definition updatedUser :: "string \<Rightarrow> App \<Rightarrow> User \<Rightarrow> StudyData \<Rightarrow> int \<Rightarrow> masteries \<Rightarrow> User" where
  "updatedUser now a u sd s ms =
    u\<lparr>quizHistory := quizHistory u @
         [\<lparr>date = now, quiz_score = s, total = int (length (questions a)),
           sheetId = Some (sheet_id sd)\<rparr>],
      conceptMastery := merge_masteries ms (conceptMastery u)\<rparr>"

definition onComplete :: "string \<Rightarrow> App \<Rightarrow> int \<Rightarrow> masteries \<Rightarrow> error + App" where
  "onComplete now a s ms =
    (case (user a, studyData a) of
       (Some u, Some sd) \<Rightarrow>
         (case saveUser (localStorage a) (User_json (updatedUser now a u sd s ms)) of
            Inl e \<Rightarrow> Inl e
          | Inr st \<Rightarrow>
              Inr (a\<lparr>localStorage := st, user := Some (updatedUser now a u sd s ms),
                     mode := Dashboard\<rparr>))
     | _ \<Rightarrow> Inl TypeError)"

text \<open>
  The logout button of both versions:
  \<^verbatim>\<open>onClick={() => { DB.setCurrentUser(null); setUser(null); setMode('landing'); }}\<close>
\<close>

definition logout :: "App \<Rightarrow> App" where
  "logout a = a\<lparr>localStorage := setCurrentUser (localStorage a) JNull, user := None,
                mode := Landing\<rparr>"

text \<open>
  The persistent record of a user: the first entry of the stored user list with the user's
  identity, which is the entry \<^verbatim>\<open>saveUser\<close> replaces (\<open>k\<close> is \<^verbatim>\<open>id\<close> in the later
  version and \<^verbatim>\<open>username\<close> in the earlier one).
\<close>

definition stored_record :: "string \<Rightarrow> storage \<Rightarrow> string \<Rightarrow> json option" where
  "stored_record k st x =
    (case getUsers st of
       Inr (JArr us) \<Rightarrow> find (has_prop k (JStr x)) us
     | _ \<Rightarrow> None)"



text \<open>The earlier version.\<close>

record App_basic =
  mode_basic :: AppMode
  user_basic :: "User_basic option"
  questions_basic :: "QuizQuestion list"
  finalScore :: "(int \<times> int) option"
  localStorage_basic :: storage

text \<open>
  \<^verbatim>\<open>
  const finishQuiz = (score: number) => {
    if (user) {
      const updatedUser = { ...user };
      updatedUser.quizHistory.push({ date: new Date().toISOString(), score, total: questions.length });
      DB.saveUser(updatedUser);
      setUser(updatedUser);
      DB.setCurrentUser(updatedUser);
    }
    setFinalScore({ score, total: questions.length });
    setMode('dashboard');
  };
  \<close>
\<close>

definition updatedUser_basic :: "string \<Rightarrow> App_basic \<Rightarrow> User_basic \<Rightarrow> int \<Rightarrow> User_basic" where
  "updatedUser_basic now a u s =
    u\<lparr>quizHistory_basic := quizHistory_basic u @
         [\<lparr>date = now, quiz_score = s, total = int (length (questions_basic a)),
           sheetId = None\<rparr>]\<rparr>"

definition finishQuiz :: "string \<Rightarrow> App_basic \<Rightarrow> int \<Rightarrow> error + App_basic" where
  "finishQuiz now a s =
    (case user_basic a of
       Some u \<Rightarrow>
         (case saveUser_basic (localStorage_basic a) (User_basic_json (updatedUser_basic now a u s)) of
            Inl e \<Rightarrow> Inl e
          | Inr st \<Rightarrow>
              Inr (a\<lparr>localStorage_basic :=
                       setCurrentUser st (User_basic_json (updatedUser_basic now a u s)),
                     user_basic := Some (updatedUser_basic now a u s),
                     finalScore := Some (s, int (length (questions_basic a))),
                     mode_basic := Dashboard\<rparr>))
     | None \<Rightarrow>
         Inr (a\<lparr>finalScore := Some (s, int (length (questions_basic a))),
                mode_basic := Dashboard\<rparr>))"

definition logout_basic :: "App_basic \<Rightarrow> App_basic" where
  "logout_basic a = a\<lparr>localStorage_basic := setCurrentUser (localStorage_basic a) JNull,
                      user_basic := None, mode_basic := Landing\<rparr>"


section \<open>Sample values\<close>

text \<open>
  Concrete values for the closed instances below: the user that \<^verbatim>\<open>AuthMode\<close> creates on a
  first sign-in, a question on a given concept, a grading result, and the application
  showing the quiz view over a given storage.
\<close>

definition default_profile :: UserProfile where
  "default_profile = \<lparr>subject = ''General'', academicLevel = ''Undergraduate'',
     learningStyle = ''mixed'', mnemonicPref = ''acronyms'', examDate = None,
     dailyTimeLimit = None\<rparr>"

definition new_user :: "string \<Rightarrow> string \<Rightarrow> User" where
  "new_user i n = \<lparr>user_id = i, username = n, profile = default_profile, weakAreas = [],
     quizHistory = [], library = [], conceptMastery = []\<rparr>"

definition question_on :: "string \<Rightarrow> QuizQuestion" where
  "question_on c = \<lparr>question_id = ''q'', question_type = ShortAnswer,
     question = ''What is it?'', options = None, correctAnswer = ''this'', hint = None,
     conceptId = c\<rparr>"

definition graded :: "bool \<Rightarrow> QuizFeedback" where
  "graded b = \<lparr>isCorrect = b, message = ''ok'', correction = None, memoryTip = Some ''tip''\<rparr>"

text \<open>
  The storage that a first sign-in on an empty medium leaves: \<^verbatim>\<open>AuthMode\<close> saves the new
  user and makes it the current one.
\<close>

definition signed_in :: "json \<Rightarrow> storage" where
  "signed_in j =
    setCurrentUser (setItem Map.empty ''mp_users'' (JSON_stringify (JArr [j]))) j"

definition quiz_app :: "User \<Rightarrow> QuizQuestion list \<Rightarrow> storage \<Rightarrow> App" where
  "quiz_app u qs st = \<lparr>mode = Quiz, user = Some u,
     studyData = Some \<lparr>sheet_id = ''s1'', title = ''Cells''\<rparr>, questions = qs,
     localStorage = st\<rparr>"

definition new_user_basic :: "string \<Rightarrow> string \<Rightarrow> User_basic" where
  "new_user_basic i n = \<lparr>user_id_basic = i, username_basic = n, weakAreas_basic = [],
     quizHistory_basic = []\<rparr>"

definition quiz_app_basic :: "User_basic \<Rightarrow> QuizQuestion list \<Rightarrow> storage \<Rightarrow> App_basic" where
  "quiz_app_basic u qs st = \<lparr>mode_basic = Quiz, user_basic = Some u, questions_basic = qs,
     finalScore = None, localStorage_basic = st\<rparr>"

section \<open>Parsing undoes \<^verbatim>\<open>JSON.stringify\<close>\<close>


lemma lt16_cases: "n < (16::nat) \<Longrightarrow> n \<in> {0,1,2,3,4,5,6,7,8,9,10,11,12,13,14,15}"
  by simp arith

lemma hex_val_hex_char: "n < 16 \<Longrightarrow> hex_val (hex_char n) = Some n"
  by (drule lt16_cases) (auto simp: hex_val_def hex_char_def)

lemma digit_hex_char: "n < 10 \<Longrightarrow> is_digit (hex_char n) \<and> digit_val (hex_char n) = n"
proof -
  assume "n < 10"
  then have "n \<in> {0,1,2,3,4,5,6,7,8,9}" by auto
  then show ?thesis by (auto simp: is_digit_def digit_val_def hex_char_def)
qed

lemma hex_char_eq_0: "n < 10 \<Longrightarrow> (hex_char n = CHR ''0'') = (n = 0)"
proof -
  assume "n < 10"
  then have "n \<in> {0,1,2,3,4,5,6,7,8,9}" by auto
  then show ?thesis by (auto simp: hex_char_def)
qed

lemma parse_digits_dec:
  "parse_digits acc (dec n @ rest) = parse_digits (acc * 10 ^ length (dec n) + n) rest"
proof (induction n arbitrary: acc rest rule: dec.induct)
  case (1 n)
  show ?case
  proof (cases "n < 10")
    case True
    then show ?thesis by (simp add: dec.simps [of n] digit_hex_char)
  next
    case False
    have d: "is_digit (hex_char (n mod 10))" "digit_val (hex_char (n mod 10)) = n mod 10"
      using digit_hex_char [of "n mod 10"] by simp_all
    have "parse_digits acc (dec n @ rest) =
          parse_digits acc (dec (n div 10) @ hex_char (n mod 10) # rest)"
      using False by (simp add: dec.simps [of n])
    also have "\<dots> = parse_digits (acc * 10 ^ length (dec (n div 10)) + n div 10)
                       (hex_char (n mod 10) # rest)"
      using "1.IH" [OF False] by simp
    also have "\<dots> = parse_digits ((acc * 10 ^ length (dec (n div 10)) + n div 10) * 10 + n mod 10) rest"
      using d by simp
    also have "(acc * 10 ^ length (dec (n div 10)) + n div 10) * 10 + n mod 10
               = acc * 10 ^ length (dec n) + n"
      using False by (simp add: dec.simps [of n] algebra_simps)
    finally show ?thesis .
  qed
qed

lemma dec_head: "\<exists>c cs. dec n = c # cs \<and> is_digit c \<and> (c = CHR ''0'' \<longrightarrow> n = 0 \<and> cs = [])"
proof (induction n rule: dec.induct)
  case (1 n)
  show ?case
  proof (cases "n < 10")
    case True
    then show ?thesis by (simp add: dec.simps [of n] digit_hex_char hex_char_eq_0)
  next
    case False
    from "1.IH" [OF False] obtain c cs where
      h: "dec (n div 10) = c # cs" "is_digit c" "c = CHR ''0'' \<longrightarrow> n div 10 = 0 \<and> cs = []"
      by blast
    from False have "n div 10 \<noteq> 0" by simp
    with h show ?thesis using False by (simp add: dec.simps [of n])
  qed
qed

lemma parse_digits_stop: "no_digit rest \<Longrightarrow> parse_digits acc rest = (acc, rest)"
  by (cases rest) (simp_all add: no_digit_def)

lemma parse_nat_dec: "no_digit rest \<Longrightarrow> parse_nat (dec n @ rest) = Some (n, rest)"
proof -
  assume nd: "no_digit rest"
  obtain c cs where h: "dec n = c # cs" "is_digit c" "c = CHR ''0'' \<longrightarrow> n = 0 \<and> cs = []"
    using dec_head by blast
  show ?thesis
  proof (cases "c = CHR ''0''")
    case True
    with h show ?thesis by (simp add: parse_nat_def)
  next
    case False
    have "parse_nat (dec n @ rest) = Some (parse_digits 0 (dec n @ rest))"
      using h False by (simp add: parse_nat_def)
    also have "\<dots> = Some (n, rest)"
      by (simp only: parse_digits_dec) (simp add: parse_digits_stop [OF nd])
    finally show ?thesis .
  qed
qed

lemma is_digit_not_minus: "is_digit c \<Longrightarrow> c \<noteq> CHR ''-''"
  by (auto simp: is_digit_def)

lemma parse_number_show_int:
  "no_digit rest \<Longrightarrow> parse_number (show_int i @ rest) = Some (i, rest)"
proof -
  assume nd: "no_digit rest"
  show ?thesis
  proof (cases "i < 0")
    case True
    then show ?thesis
      by (simp add: parse_number_def show_int_def parse_nat_dec [OF nd])
  next
    case False
    obtain c cs where h: "dec (nat i) = c # cs" "is_digit c"
      using dec_head by blast
    have "parse_nat (dec (nat i) @ rest) = Some (nat i, rest)"
      by (rule parse_nat_dec [OF nd])
    with h False show ?thesis
      using is_digit_not_minus [OF h(2)]
      by (simp add: parse_number_def show_int_def)
  qed
qed

lemma parse_chars_escape:
  "parse_chars (escape_char c @ s) = map_option (\<lambda>(t, r). (c # t, r)) (parse_chars s)"
proof -
  let ?n = "of_char c :: nat"
  consider (quote) "c = CHR 0x22" | (bs) "c = CHR 0x5C"
    | (short) "c \<in> {CHR 0x08, CHR 0x0C, CHR 0x0A, CHR 0x0D, CHR 0x09}"
    | (ctl) "c \<noteq> CHR 0x22" "c \<noteq> CHR 0x5C" "c \<notin> {CHR 0x08, CHR 0x0C, CHR 0x0A, CHR 0x0D, CHR 0x09}" "?n < 32"
    | (plain) "c \<noteq> CHR 0x22" "c \<noteq> CHR 0x5C" "\<not> ?n < 32"
    by blast
  then show ?thesis
  proof cases
    case quote
    then show ?thesis by (simp add: escape_char_def unescape_def)
  next
    case bs
    then show ?thesis by (simp add: escape_char_def unescape_def)
  next
    case short
    then show ?thesis by (auto simp: escape_char_def unescape_def)
  next
    case ctl
    have a: "?n div 16 < 16" "?n mod 16 < 16" using ctl(4) by simp_all
    have "hex4 (CHR ''0'') (CHR ''0'') (hex_char (?n div 16)) (hex_char (?n mod 16))
          = Some (char_of (16 * (?n div 16) + ?n mod 16))"
      by (simp add: hex4_def hex_val_hex_char [OF a(1)] hex_val_hex_char [OF a(2)])
         (simp add: hex_val_def)
    also have "16 * (?n div 16) + ?n mod 16 = ?n" by simp
    finally have "hex4 (CHR ''0'') (CHR ''0'') (hex_char (?n div 16)) (hex_char (?n mod 16)) = Some c"
      by simp
    with ctl show ?thesis by (simp add: escape_char_def)
  next
    case plain
    then have "escape_char c = [c]" by (auto simp: escape_char_def)
    with plain show ?thesis by simp
  qed
qed

lemma parse_chars_quote:
  "parse_chars (concat (map escape_char s) @ CHR 0x22 # rest) = Some (s, rest)"
  by (induction s) (simp_all add: parse_chars_escape)


lemma skip_ws_non_ws: "\<not> is_ws c \<Longrightarrow> skip_ws (c # s) = c # s"
  by (simp add: skip_ws_def)

lemma quote_Cons: "quote s @ rest = CHR 0x22 # concat (map escape_char s) @ CHR 0x22 # rest"
  by (simp add: quote_def)

lemma show_int_head:
  "\<exists>c cs. show_int i = c # cs \<and> (c = CHR ''-'' \<or> is_digit c)"
proof (cases "i < 0")
  case True
  then show ?thesis by (simp add: show_int_def)
next
  case False
  obtain c cs where "dec (nat i) = c # cs" "is_digit c" using dec_head by blast
  with False show ?thesis by (simp add: show_int_def)
qed

lemma number_head_plain:
  "c = CHR ''-'' \<or> is_digit c \<Longrightarrow>
     \<not> is_ws c \<and> c \<noteq> CHR 0x22 \<and> c \<noteq> CHR ''['' \<and> c \<noteq> CHR ''{'' \<and> c \<noteq> CHR ''n''
     \<and> c \<noteq> CHR ''t'' \<and> c \<noteq> CHR ''f''"
  by (auto simp: is_digit_def is_ws_def)

lemma parse_value_JNum:
  assumes "no_digit rest"
  shows "parse_value (Suc n) (show_int i @ rest) = Some (JNum i, rest)"
proof -
  obtain c cs where h: "show_int i = c # cs" "c = CHR ''-'' \<or> is_digit c"
    using show_int_head by blast
  note p = number_head_plain [OF h(2)]
  have "parse_number (c # cs @ rest) = Some (i, rest)"
    using parse_number_show_int [OF assms, of i] h(1) by simp
  with p h(1) show ?thesis by (simp add: skip_ws_non_ws)
qed

lemma stringify_head:
  "\<exists>c cs. JSON_stringify v = c # cs \<and> \<not> is_ws c \<and> c \<noteq> CHR '']'' \<and> c \<noteq> CHR ''}''"
proof (cases v)
  case JNull
  then show ?thesis by (simp add: is_ws_def)
next
  case (JBool b)
  then show ?thesis by (simp add: is_ws_def)
next
  case (JNum i)
  obtain c cs where h: "show_int i = c # cs" "c = CHR ''-'' \<or> is_digit c"
    using show_int_head by blast
  have "c \<noteq> CHR '']''" "c \<noteq> CHR ''}''" using h(2) by (auto simp: is_digit_def)
  with JNum h(1) number_head_plain [OF h(2)] show ?thesis by simp
next
  case (JStr s)
  then show ?thesis by (simp add: quote_def is_ws_def)
next
  case (JArr vs)
  then show ?thesis by (simp add: is_ws_def)
next
  case (JObj kvs)
  then show ?thesis by (simp add: is_ws_def)
qed

lemma stringify_elems_head:
  "vs \<noteq> [] \<Longrightarrow> \<exists>c cs. stringify_elems vs = c # cs \<and> \<not> is_ws c \<and> c \<noteq> CHR '']''"
proof (cases vs)
  case Nil
  assume "vs \<noteq> []"
  with Nil show ?thesis by simp
next
  case (Cons v ws)
  obtain c cs where "JSON_stringify v = c # cs" "\<not> is_ws c" "c \<noteq> CHR '']''"
    using stringify_head by blast
  with Cons show ?thesis by (cases ws) auto
qed

lemma stringify_members_head:
  "kvs \<noteq> [] \<Longrightarrow> \<exists>cs. stringify_members kvs = CHR 0x22 # cs"
proof (cases kvs)
  case Nil
  assume "kvs \<noteq> []"
  with Nil show ?thesis by simp
next
  case (Cons kv ws)
  then show ?thesis by (cases kv; cases ws) (auto simp: quote_def)
qed

lemma closes_no_digit: "closes s \<Longrightarrow> no_digit s"
  by (cases s) (auto simp: closes_def no_digit_def is_digit_def)

lemma update_fresh: "k \<notin> fst ` set al \<Longrightarrow> AList.update k v al = al @ [(k, v)]"
  by (induction al) auto

lemma is_ws_simps [simp]:
  "\<not> is_ws (CHR '','')" "\<not> is_ws (CHR '']'')" "\<not> is_ws (CHR ''}'')" "\<not> is_ws (CHR '':'')"
  "\<not> is_ws (CHR 0x22)" "\<not> is_ws (CHR ''['')" "\<not> is_ws (CHR ''{'')"
  by (simp_all add: is_ws_def)


lemma parse_value_str:
  "parse_value (Suc n) (CHR 0x22 # cs) = map_option (\<lambda>(t, r). (JStr t, r)) (parse_chars cs)"
  by (simp add: skip_ws_non_ws)

lemma parse_value_empty_arr: "parse_value (Suc n) (CHR ''['' # CHR '']'' # r) = Some (JArr [], r)"
  by (simp add: skip_ws_non_ws)

lemma parse_value_empty_obj: "parse_value (Suc n) (CHR ''{'' # CHR ''}'' # r) = Some (JObj [], r)"
  by (simp add: skip_ws_non_ws)

lemma parse_value_arr:
  "\<not> is_ws d \<Longrightarrow> d \<noteq> CHR '']'' \<Longrightarrow>
     parse_value (Suc n) (CHR ''['' # d # ds) = parse_elems n [] (d # ds)"
  by (simp add: skip_ws_non_ws)

lemma parse_value_obj:
  "parse_value (Suc n) (CHR ''{'' # CHR 0x22 # ds) = parse_members n [] (CHR 0x22 # ds)"
  by (simp add: skip_ws_non_ws)

lemma parse_value_lit:
  "parse_value (Suc n) (''null'' @ r) = Some (JNull, r)"
  "parse_value (Suc n) (''true'' @ r) = Some (JBool True, r)"
  "parse_value (Suc n) (''false'' @ r) = Some (JBool False, r)"
  by (simp_all add: skip_ws_non_ws is_ws_def strip_prefix_def)

lemma parse_elems_more:
  "parse_value n s = Some (v, CHR '','' # r) \<Longrightarrow>
     parse_elems (Suc n) acc s = parse_elems n (acc @ [v]) r"
  by (simp add: skip_ws_non_ws)

lemma parse_elems_last:
  "parse_value n s = Some (v, CHR '']'' # r) \<Longrightarrow>
     parse_elems (Suc n) acc s = Some (JArr (acc @ [v]), r)"
  by (simp add: skip_ws_non_ws)

lemma parse_members_more:
  "parse_chars s1 = Some (k, CHR '':'' # s3) \<Longrightarrow> parse_value n s3 = Some (v, CHR '','' # r) \<Longrightarrow>
     parse_members (Suc n) al (CHR 0x22 # s1) = parse_members n (AList.update k v al) r"
  by (simp add: skip_ws_non_ws)

lemma parse_members_last:
  "parse_chars s1 = Some (k, CHR '':'' # s3) \<Longrightarrow> parse_value n s3 = Some (v, CHR ''}'' # r) \<Longrightarrow>
     parse_members (Suc n) al (CHR 0x22 # s1) = Some (JObj (AList.update k v al), r)"
  by (simp add: skip_ws_non_ws)


lemmas parser_simps = parse_value.simps parse_elems.simps parse_members.simps

lemma parse_stringify_aux:
  "distinct_keys v \<Longrightarrow> closes rest \<Longrightarrow> length (JSON_stringify v) < n \<Longrightarrow>
     parse_value n (JSON_stringify v @ rest) = Some (v, rest)"
  "vs \<noteq> [] \<Longrightarrow> distinct_keys_elems vs \<Longrightarrow> Suc (length (stringify_elems vs)) < n \<Longrightarrow>
     parse_elems n acc (stringify_elems vs @ CHR '']'' # rest) = Some (JArr (acc @ vs), rest)"
  "kvs \<noteq> [] \<Longrightarrow> distinct_keys_members kvs \<Longrightarrow> distinct (map fst (al @ kvs)) \<Longrightarrow>
     length (stringify_members kvs) < n \<Longrightarrow>
     parse_members n al (stringify_members kvs @ CHR ''}'' # rest) = Some (JObj (al @ kvs), rest)"
proof (induction v and vs and kvs arbitrary: n rest and n acc rest and n al rest
    rule: JSON_stringify_stringify_elems_stringify_members.induct)
  case 1
  then obtain m where "n = Suc m" by (cases n) auto
  then show ?case using parse_value_lit(1) [of m rest] by (simp del: parser_simps)
next
  case (2 b)
  then obtain m where "n = Suc m" by (cases n) auto
  then show ?case using parse_value_lit(2,3) [of m rest] by (simp del: parser_simps)
next
  case (3 i)
  then obtain m where "n = Suc m" by (cases n) auto
  with 3 show ?case by (simp del: parser_simps add: parse_value_JNum closes_no_digit)
next
  case (4 s)
  then obtain m where "n = Suc m" by (cases n) auto
  then show ?case by (simp del: parser_simps add: quote_Cons parse_value_str parse_chars_quote)
next
  case (5 vs)
  then obtain m where n: "n = Suc m" by (cases n) auto
  show ?case
  proof (cases "vs = []")
    case True
    with n show ?thesis by (simp del: parser_simps add: parse_value_empty_arr)
  next
    case False
    obtain c cs where h: "stringify_elems vs = c # cs" "\<not> is_ws c" "c \<noteq> CHR '']''"
      using stringify_elems_head [OF False] by blast
    have "parse_elems m [] (stringify_elems vs @ CHR '']'' # rest) = Some (JArr ([] @ vs), rest)"
      using "5.prems" n by (intro "5.IH" False) simp_all
    with n h show ?thesis by (simp del: parser_simps add: parse_value_arr)
  qed
next
  case (6 kvs)
  then obtain m where n: "n = Suc m" by (cases n) auto
  show ?case
  proof (cases "kvs = []")
    case True
    with n show ?thesis by (simp del: parser_simps add: parse_value_empty_obj)
  next
    case False
    obtain cs where h: "stringify_members kvs = CHR 0x22 # cs"
      using stringify_members_head [OF False] by blast
    have "parse_members m [] (stringify_members kvs @ CHR ''}'' # rest) = Some (JObj ([] @ kvs), rest)"
      using "6.prems" n by (intro "6.IH" False) simp_all
    with n h show ?thesis by (simp del: parser_simps add: parse_value_obj)
  qed
next
  case 7
  then show ?case by simp
next
  case (8 v)
  then obtain m where n: "n = Suc m" by (cases n) auto
  have "parse_value m (JSON_stringify v @ CHR '']'' # rest) = Some (v, CHR '']'' # rest)"
    using "8.prems" n by (intro "8.IH") (simp_all add: closes_def)
  with n show ?case by (simp del: parser_simps add: parse_elems_last)
next
  case (9 v w vs)
  then obtain m where n: "n = Suc m" by (cases n) auto
  let ?tail = "CHR '','' # stringify_elems (w # vs) @ CHR '']'' # rest"
  have a: "parse_value m (JSON_stringify v @ ?tail) = Some (v, ?tail)"
    using "9.prems" n by (intro "9.IH"(1)) (simp_all add: closes_def)
  obtain c cs where "JSON_stringify v = c # cs" using stringify_head by blast
  then have "0 < length (JSON_stringify v)" by simp
  then have b: "parse_elems m (acc @ [v]) (stringify_elems (w # vs) @ CHR '']'' # rest)
           = Some (JArr ((acc @ [v]) @ w # vs), rest)"
    using "9.prems" n by (intro "9.IH"(2)) simp_all
  from n b show ?case using parse_elems_more [OF a, where acc = acc]
    by (simp del: parser_simps)
next
  case 10
  then show ?case by simp
next
  case (11 k v)
  then obtain m where n: "n = Suc m" by (cases n) auto
  have a: "parse_value m (JSON_stringify v @ CHR ''}'' # rest) = Some (v, CHR ''}'' # rest)"
    using "11.prems" n by (intro "11.IH") (simp_all add: closes_def)
  have "k \<notin> fst ` set al" using "11.prems" by auto
  then have u: "AList.update k v al = al @ [(k, v)]" by (rule update_fresh)
  from n u show ?case using parse_members_last [OF parse_chars_quote a, where al = al]
    by (simp del: parser_simps add: quote_Cons)
next
  case (12 k v kv kvs)
  then obtain m where n: "n = Suc m" by (cases n) auto
  let ?tail = "CHR '','' # stringify_members (kv # kvs) @ CHR ''}'' # rest"
  have a: "parse_value m (JSON_stringify v @ ?tail) = Some (v, ?tail)"
    using "12.prems" n by (intro "12.IH"(1)) (simp_all add: closes_def)
  have "k \<notin> fst ` set al" using "12.prems" by auto
  then have u: "AList.update k v al = al @ [(k, v)]" by (rule update_fresh)
  have b: "parse_members m (al @ [(k, v)]) (stringify_members (kv # kvs) @ CHR ''}'' # rest)
           = Some (JObj ((al @ [(k, v)]) @ kv # kvs), rest)"
    using "12.prems" n by (intro "12.IH"(2)) simp_all
  from n b u show ?case using parse_members_more [OF parse_chars_quote a, where al = al]
    by (simp del: parser_simps add: quote_Cons)
qed

lemma JSON_parse_stringify:
  "distinct_keys v \<Longrightarrow> JSON_parse (JSON_stringify v) = Inr v"
  using parse_stringify_aux(1) [of v "[]" "Suc (length (JSON_stringify v))"]
  by (simp add: JSON_parse_def closes_def skip_ws_def del: parser_simps)


lemma distinct_keys_elems_append:
  "distinct_keys_elems (xs @ ys) = (distinct_keys_elems xs \<and> distinct_keys_elems ys)"
  by (induction xs) auto

lemma distinct_keys_members_update:
  "distinct_keys_members al \<Longrightarrow> distinct_keys v \<Longrightarrow> distinct_keys_members (AList.update k v al)"
  by (induction al) auto

lemma parse_distinct_keys_aux:
  "parse_value n s = Some (v, r) \<Longrightarrow> distinct_keys v"
  "parse_elems n acc s = Some (v, r) \<Longrightarrow> distinct_keys_elems acc \<Longrightarrow> distinct_keys v"
  "parse_members n al s = Some (v, r) \<Longrightarrow> distinct (map fst al) \<Longrightarrow> distinct_keys_members al \<Longrightarrow>
     distinct_keys v"
proof (induction n s and n acc s and n al s arbitrary: v r and v r and v r
    rule: parse_value_parse_elems_parse_members.induct)
  case (1 s)
  then show ?case by simp
next
  case (2 n s)
  from "2.prems" obtain c cs where s: "skip_ws s = c # cs"
    by (cases "skip_ws s") auto
  consider (str) "c = CHR 0x22" | (arr) "c = CHR ''[''" | (obj) "c = CHR ''{''"
    | (other) "c \<noteq> CHR 0x22" "c \<noteq> CHR ''[''" "c \<noteq> CHR ''{''"
    by blast
  then show ?case
  proof cases
    case str
    with "2.prems" s show ?thesis by auto
  next
    case arr
    from "2.prems" s arr obtain d ds where d: "skip_ws cs = d # ds"
      by (cases "skip_ws cs") auto
    show ?thesis
    proof (cases "d = CHR '']''")
      case True
      with "2.prems" s arr d show ?thesis by auto
    next
      case False
      with "2.prems" s arr d have "parse_elems n [] cs = Some (v, r)" by simp
      then show ?thesis using "2.IH"(1) [OF s _ _ d False] arr by simp
    qed
  next
    case obj
    from "2.prems" s obj obtain d ds where d: "skip_ws cs = d # ds"
      by (cases "skip_ws cs") auto
    show ?thesis
    proof (cases "d = CHR ''}''")
      case True
      with "2.prems" s obj d show ?thesis by auto
    next
      case False
      with "2.prems" s obj d have "parse_members n [] cs = Some (v, r)" by simp
      then show ?thesis using "2.IH"(2) [OF s _ _ _ d False] obj by simp
    qed
  next
    case other
    with "2.prems" s show ?thesis by (auto split: if_splits)
  qed
next
  case (3 acc s)
  then show ?case by simp
next
  case (4 n acc s)
  from "4.prems"(1) obtain w r1 where w: "parse_value n s = Some (w, r1)"
    by (cases "parse_value n s") auto
  then have dw: "distinct_keys w" by (rule "4.IH"(1))
  from "4.prems"(1) w obtain c cs where c: "skip_ws r1 = c # cs"
    by (cases "skip_ws r1") auto
  show ?case
  proof (cases "c = CHR '',''")
    case True
    with "4.prems"(1) w c have "parse_elems n (acc @ [w]) cs = Some (v, r)" by simp
    moreover have "distinct_keys_elems (acc @ [w])"
      using "4.prems"(2) dw by (simp add: distinct_keys_elems_append)
    ultimately show ?thesis using "4.IH"(2) [OF w refl c True] by simp
  next
    case False
    with "4.prems" w c dw show ?thesis
      by (auto simp: distinct_keys_elems_append split: if_splits)
  qed
next
  case (5 al s)
  then show ?case by simp
next
  case (6 n al s)
  from "6.prems"(1) obtain q s1 where q: "skip_ws s = q # s1"
    by (cases "skip_ws s") auto
  from "6.prems"(1) q have qq: "\<not> q \<noteq> CHR 0x22" by (auto split: if_splits)
  from "6.prems"(1) q qq obtain k s2 where k: "parse_chars s1 = Some (k, s2)"
    by (cases "parse_chars s1") auto
  from "6.prems"(1) q qq k obtain c s3 where c: "skip_ws s2 = c # s3"
    by (cases "skip_ws s2") auto
  from "6.prems"(1) q qq k c have cc: "\<not> c \<noteq> CHR '':''" by (auto split: if_splits)
  from "6.prems"(1) q qq k c cc obtain w s4 where w: "parse_value n s3 = Some (w, s4)"
    by (cases "parse_value n s3") auto
  have dw: "distinct_keys w" using "6.IH"(1) [OF q qq k refl c cc w] .
  from "6.prems"(1) q qq k c cc w obtain d s5 where d: "skip_ws s4 = d # s5"
    by (cases "skip_ws s4") auto
  have du: "distinct (map fst (AList.update k w al))"
    using "6.prems"(2) by (rule distinct_update)
  have dm: "distinct_keys_members (AList.update k w al)"
    using "6.prems"(3) dw by (rule distinct_keys_members_update)
  show ?case
  proof (cases "d = CHR '',''")
    case True
    with "6.prems"(1) q qq k c cc w d
    have "parse_members n (AList.update k w al) s5 = Some (v, r)" by simp
    then show ?thesis using "6.IH"(2) [OF q qq k refl c cc w refl d True] du dm by simp
  next
    case False
    with "6.prems"(1) q qq k c cc w d du dm show ?thesis
      by (auto split: if_splits)
  qed
qed

lemma JSON_parse_distinct_keys: "JSON_parse s = Inr v \<Longrightarrow> distinct_keys v"
  by (auto simp: JSON_parse_def parse_distinct_keys_aux(1) simp del: parser_simps
      split: option.splits if_splits)


subsection \<open>The bound on nested calls\<close>

text \<open>
  Whenever some bound lets the parser read a value, every bound that is at least the number
  of characters read does: \<open>JSON_parse\<close> never rejects a text for lack of calls.
\<close>

lemma skip_ws_length: "length (skip_ws s) \<le> length s"
  by (simp add: skip_ws_def length_dropWhile_le)

lemma skip_ws_Cons_length: "skip_ws s = c # cs \<Longrightarrow> length cs < length s"
  using skip_ws_length [of s] by simp

lemma parse_chars_length: "parse_chars s = Some (t, r) \<Longrightarrow> length r < length s"
proof (induction "length s" arbitrary: s t rule: less_induct)
  case less
  from less.prems obtain c cs where s: "s = c # cs" by (cases s) auto
  have ih: "\<And>s' t'. length s' < length s \<Longrightarrow> parse_chars s' = Some (t', r) \<Longrightarrow> length r < length s'"
    using less.hyps by blast
  from less.prems s show ?case
    by (auto split: if_splits list.splits option.splits dest!: ih [rotated])
qed

lemma parse_digits_length: "parse_digits acc s = (n, r) \<Longrightarrow> length r \<le> length s"
  by (induction acc s rule: parse_digits.induct) (auto split: if_splits simp: le_Suc_eq)

lemma parse_nat_length: "parse_nat s = Some (n, r) \<Longrightarrow> length r < length s"
  by (auto simp: parse_nat_def split: list.splits if_splits dest!: parse_digits_length)

lemma parse_number_length: "parse_number s = Some (i, r) \<Longrightarrow> length r < length s"
  by (auto simp: parse_number_def split: list.splits if_splits dest!: parse_nat_length)

lemma strip_prefix_length: "strip_prefix p s = Some r \<Longrightarrow> p \<noteq> [] \<Longrightarrow> length r < length s"
  by (cases p; cases s) (auto simp: strip_prefix_def split: if_splits)


lemma parse_fuel_aux:
  "parse_value n s = Some (v, r) \<Longrightarrow>
     length r < length s \<and> (\<forall>m. length s - length r \<le> m \<longrightarrow> parse_value m s = Some (v, r))"
  "parse_elems n acc s = Some (v, r) \<Longrightarrow>
     length r < length s \<and> (\<forall>m. length s - length r \<le> m \<longrightarrow> parse_elems m acc s = Some (v, r))"
  "parse_members n al s = Some (v, r) \<Longrightarrow>
     length r < length s \<and> (\<forall>m. length s - length r \<le> m \<longrightarrow> parse_members m al s = Some (v, r))"
proof (induction n s and n acc s and n al s arbitrary: v r and v r and v r
    rule: parse_value_parse_elems_parse_members.induct)
  case (1 s)
  then show ?case by simp
next
  case (2 n s)
  from "2.prems" obtain c cs where s: "skip_ws s = c # cs"
    by (cases "skip_ws s") auto
  note ls = skip_ws_Cons_length [OF s]
  consider (arr) "c \<noteq> CHR 0x22" "c = CHR ''[''"
    | (obj) "c \<noteq> CHR 0x22" "c \<noteq> CHR ''[''" "c = CHR ''{''"
    | (leaf) "c = CHR 0x22 \<or> (c \<noteq> CHR ''['' \<and> c \<noteq> CHR ''{'')"
    by blast
  then show ?case
  proof cases
    case arr
    from "2.prems" s arr obtain d ds where d: "skip_ws cs = d # ds"
      by (cases "skip_ws cs") auto
    note ld = skip_ws_Cons_length [OF d]
    show ?thesis
    proof (cases "d = CHR '']''")
      case True
      with "2.prems" s arr d have r: "v = JArr []" "r = ds" by auto
      have "parse_value m s = Some (v, r)" if "length s - length r \<le> m" for m
      proof -
        from that r ls ld obtain m' where "m = Suc m'" by (cases m) auto
        with s arr d True r show ?thesis by simp
      qed
      with r ls ld show ?thesis by simp
    next
      case False
      with "2.prems" s arr d have e: "parse_elems n [] cs = Some (v, r)" by simp
      from "2.IH"(1) [OF s arr d False e]
      have ih: "length r < length cs" "\<And>m. length cs - length r \<le> m \<Longrightarrow> parse_elems m [] cs = Some (v, r)"
        by simp_all
      have "parse_value m s = Some (v, r)" if "length s - length r \<le> m" for m
      proof -
        from that ih(1) ls obtain m' where m': "m = Suc m'" "length cs - length r \<le> m'"
          by (cases m) auto
        with s arr d False ih(2) [OF m'(2)] show ?thesis by simp
      qed
      with ih(1) ls show ?thesis by simp
    qed
  next
    case obj
    from "2.prems" s obj obtain d ds where d: "skip_ws cs = d # ds"
      by (cases "skip_ws cs") auto
    note ld = skip_ws_Cons_length [OF d]
    show ?thesis
    proof (cases "d = CHR ''}''")
      case True
      with "2.prems" s obj d have r: "v = JObj []" "r = ds" by auto
      have "parse_value m s = Some (v, r)" if "length s - length r \<le> m" for m
      proof -
        from that r ls ld obtain m' where "m = Suc m'" by (cases m) auto
        with s obj d True r show ?thesis by simp
      qed
      with r ls ld show ?thesis by simp
    next
      case False
      with "2.prems" s obj d have e: "parse_members n [] cs = Some (v, r)" by simp
      from "2.IH"(2) [OF s obj(1,2,3) d False e]
      have ih: "length r < length cs" "\<And>m. length cs - length r \<le> m \<Longrightarrow> parse_members m [] cs = Some (v, r)"
        by simp_all
      have "parse_value m s = Some (v, r)" if "length s - length r \<le> m" for m
      proof -
        from that ih(1) ls obtain m' where m': "m = Suc m'" "length cs - length r \<le> m'"
          by (cases m) auto
        with s obj d False ih(2) [OF m'(2)] show ?thesis by simp
      qed
      with ih(1) ls show ?thesis by simp
    qed
  next
    case leaf
    have same: "parse_value (Suc m') s = parse_value (Suc n) s" for m'
      using s leaf by auto
    have lr: "length r < length (c # cs)"
      using "2.prems" s leaf
      by (auto split: if_splits dest!: parse_chars_length parse_number_length
          dest: strip_prefix_length)
    have "parse_value m s = Some (v, r)" if "length s - length r \<le> m" for m
    proof -
      from that lr ls obtain m' where "m = Suc m'" by (cases m) auto
      with same [of m'] "2.prems" show ?thesis by simp
    qed
    with lr ls show ?thesis by simp
  qed
next
  case (3 acc s)
  then show ?case by simp
next
  case (4 n acc s)
  from "4.prems" obtain w r1 where w: "parse_value n s = Some (w, r1)"
    by (cases "parse_value n s") auto
  from "4.IH"(1) [OF w]
  have ihv: "length r1 < length s" "\<And>m. length s - length r1 \<le> m \<Longrightarrow> parse_value m s = Some (w, r1)"
    by simp_all
  from "4.prems" w obtain c cs where c: "skip_ws r1 = c # cs"
    by (cases "skip_ws r1") auto
  note lc = skip_ws_Cons_length [OF c]
  show ?case
  proof (cases "c = CHR '',''")
    case True
    with "4.prems" w c have e: "parse_elems n (acc @ [w]) cs = Some (v, r)" by simp
    from "4.IH"(2) [OF w refl c True e]
    have ihe: "length r < length cs"
      "\<And>m. length cs - length r \<le> m \<Longrightarrow> parse_elems m (acc @ [w]) cs = Some (v, r)"
      by simp_all
    have "parse_elems m acc s = Some (v, r)" if "length s - length r \<le> m" for m
    proof -
      from that ihe(1) lc ihv(1) obtain m' where m': "m = Suc m'"
        "length s - length r1 \<le> m'" "length cs - length r \<le> m'"
        by (cases m) auto
      with c True ihv(2) [OF m'(2)] ihe(2) [OF m'(3)] show ?thesis by simp
    qed
    with ihe(1) lc ihv(1) show ?thesis by simp
  next
    case False
    with "4.prems" w c have r: "c = CHR '']''" "v = JArr (acc @ [w])" "r = cs"
      by (auto split: if_splits)
    have "parse_elems m acc s = Some (v, r)" if "length s - length r \<le> m" for m
    proof -
      from that r lc ihv(1) obtain m' where m': "m = Suc m'" "length s - length r1 \<le> m'"
        by (cases m) auto
      with c r ihv(2) [OF m'(2)] show ?thesis by simp
    qed
    with r lc ihv(1) show ?thesis by simp
  qed
next
  case (5 al s)
  then show ?case by simp
next
  case (6 n al s)
  from "6.prems" obtain q s1 where q: "skip_ws s = q # s1"
    by (cases "skip_ws s") auto
  from "6.prems" q have qq: "\<not> q \<noteq> CHR 0x22" by (auto split: if_splits)
  from "6.prems" q qq obtain k s2 where k: "parse_chars s1 = Some (k, s2)"
    by (cases "parse_chars s1") auto
  from "6.prems" q qq k obtain c s3 where c: "skip_ws s2 = c # s3"
    by (cases "skip_ws s2") auto
  from "6.prems" q qq k c have cc: "\<not> c \<noteq> CHR '':''" by (auto split: if_splits)
  from "6.prems" q qq k c cc obtain w s4 where w: "parse_value n s3 = Some (w, s4)"
    by (cases "parse_value n s3") auto
  from "6.IH"(1) [OF q qq k refl c cc w]
  have ihv: "length s4 < length s3" "\<And>m. length s3 - length s4 \<le> m \<Longrightarrow> parse_value m s3 = Some (w, s4)"
    by simp_all
  from "6.prems" q qq k c cc w obtain d s5 where d: "skip_ws s4 = d # s5"
    by (cases "skip_ws s4") auto
  note l1 = skip_ws_Cons_length [OF q] and l2 = parse_chars_length [OF k]
    and l3 = skip_ws_Cons_length [OF c] and l5 = skip_ws_Cons_length [OF d]
  show ?case
  proof (cases "d = CHR '',''")
    case True
    with "6.prems" q qq k c cc w d
    have e: "parse_members n (AList.update k w al) s5 = Some (v, r)" by simp
    from "6.IH"(2) [OF q qq k refl c cc w refl d True e]
    have ihm: "length r < length s5"
      "\<And>m. length s5 - length r \<le> m \<Longrightarrow> parse_members m (AList.update k w al) s5 = Some (v, r)"
      by simp_all
    have "parse_members m al s = Some (v, r)" if "length s - length r \<le> m" for m
    proof -
      from that ihm(1) ihv(1) l1 l2 l3 l5 obtain m' where m': "m = Suc m'"
        "length s3 - length s4 \<le> m'" "length s5 - length r \<le> m'"
        by (cases m) auto
      with q qq k c cc d True ihv(2) [OF m'(2)] ihm(2) [OF m'(3)] show ?thesis by simp
    qed
    with ihm(1) ihv(1) l1 l2 l3 l5 show ?thesis by simp
  next
    case False
    with "6.prems" q qq k c cc w d
    have r: "d = CHR ''}''" "v = JObj (AList.update k w al)" "r = s5"
      by (auto split: if_splits)
    have "parse_members m al s = Some (v, r)" if "length s - length r \<le> m" for m
    proof -
      from that r ihv(1) l1 l2 l3 l5 obtain m' where m': "m = Suc m'"
        "length s3 - length s4 \<le> m'"
        by (cases m) auto
      with q qq k c cc d r ihv(2) [OF m'(2)] show ?thesis by simp
    qed
    with r ihv(1) l1 l2 l3 l5 show ?thesis by simp
  qed
qed

lemma JSON_parse_fuel:
  assumes "parse_value n s = Some (v, r)" "skip_ws r = []"
  shows "JSON_parse s = Inr v"
proof -
  from parse_fuel_aux(1) [OF assms(1)]
  have "parse_value (Suc (length s)) s = Some (v, r)" by (simp del: parser_simps)
  with assms(2) show ?thesis by (simp add: JSON_parse_def del: parser_simps)
qed

section \<open>The quiz session\<close>

lemma handleSubmit_graded:
  assumes "trim a \<noteq> []" "\<not> loading v" "index v < length qs"
  shows "handleSubmit qs (Inr res) (v\<lparr>answer := a\<rparr>) =
     (if isCorrect res
      then v\<lparr>answer := a, feedback := Some res, score := score v + 1,
             masteries := AList.update (conceptId (qs ! index v))
                (js_add (or0 (js_get (masteries v) (conceptId (qs ! index v)))) (Num 10))
                (masteries v),
             loading := False\<rparr>
      else v\<lparr>answer := a, feedback := Some res,
             masteries := AList.update (conceptId (qs ! index v))
                (Math_max (Num 0) (js_sub (or0 (js_get (masteries v) (conceptId (qs ! index v)))) (Num 5)))
                (masteries v),
             loading := False\<rparr>)"
  using assms by (simp add: handleSubmit_def current_def Let_def)

lemma handleSubmit_failed:
  assumes "trim a \<noteq> []" "\<not> loading v"
  shows "handleSubmit qs (Inl e) (v\<lparr>answer := a\<rparr>) =
           v\<lparr>answer := a, feedback := Some grading_failed, loading := False\<rparr>"
  using assms by (simp add: handleSubmit_def)

lemma handleSubmit_score:
  assumes "trim a \<noteq> []" "\<not> loading v" "index v < length qs"
  shows "score (handleSubmit qs r (v\<lparr>answer := a\<rparr>)) = score v + (if is_correct r then 1 else 0)"
    and "feedback (handleSubmit qs r (v\<lparr>answer := a\<rparr>)) \<noteq> None"
    and "\<not> loading (handleSubmit qs r (v\<lparr>answer := a\<rparr>))"
    and "index (handleSubmit qs r (v\<lparr>answer := a\<rparr>)) = index v"
  using assms
  by (cases r; simp add: handleSubmit_graded handleSubmit_failed is_correct_def)+

lemma quiz_session_next:
  "feedback (handleSubmit qs r (v\<lparr>answer := a\<rparr>)) \<noteq> None \<Longrightarrow>
   quiz_session qs ((a, r) # ins) v =
     (case next_question qs (handleSubmit qs r (v\<lparr>answer := a\<rparr>)) of
        Continue v2 \<Rightarrow> quiz_session qs ins v2
      | Complete c \<Rightarrow> (Complete c, ins))"
  by (auto simp: Let_def)

lemma quiz_session_again:
  "feedback (handleSubmit qs r (v\<lparr>answer := a\<rparr>)) = None \<Longrightarrow>
   quiz_session qs ((a, r) # ins) v = quiz_session qs ins (handleSubmit qs r (v\<lparr>answer := a\<rparr>))"
  by (simp add: Let_def)

lemma quiz_session_total:
  assumes "index v + length ins = length qs" "ins \<noteq> []" "\<not> loading v"
    and "\<forall>(a, r) \<in> set ins. trim a \<noteq> []"
  shows "\<exists>m. quiz_session qs ins v = (Complete (score v + correct_count (map snd ins), m), [])"
  using assms
proof (induction ins arbitrary: v)
  case Nil
  then show ?case by simp
next
  case (Cons x ins)
  obtain a r where x: "x = (a, r)" by (cases x)
  let ?v1 = "handleSubmit qs r (v\<lparr>answer := a\<rparr>)"
  have a: "trim a \<noteq> []" using Cons.prems(4) x by simp
  have i: "index v < length qs" using Cons.prems(1) by simp
  note h = handleSubmit_score [OF a Cons.prems(3) i, of r]
  have step: "quiz_session qs (x # ins) v =
     (case next_question qs ?v1 of
        Continue v2 \<Rightarrow> quiz_session qs ins v2
      | Complete c \<Rightarrow> (Complete c, ins))"
    unfolding x by (rule quiz_session_next [OF h(2)])
  have cc: "correct_count (map snd (x # ins)) = (if is_correct r then 1 else 0) + correct_count (map snd ins)"
    by (simp add: correct_count_def x)
  show ?case
  proof (cases "ins = []")
    case True
    with Cons.prems(1) have "\<not> int (index ?v1) < int (length qs) - 1" using h(4) by simp
    then have "next_question qs ?v1 = Complete (score ?v1, masteries ?v1)"
      by (simp add: next_question_def)
    with step True h(1) cc show ?thesis by (simp add: correct_count_def)
  next
    case False
    have lt: "int (index ?v1) < int (length qs) - 1"
      using Cons.prems(1) h(4) False by (cases ins) auto
    let ?v2 = "?v1\<lparr>index := index ?v1 + 1, answer := [], feedback := None\<rparr>"
    have nq: "next_question qs ?v1 = Continue ?v2"
      using lt by (simp add: next_question_def)
    have "\<exists>m. quiz_session qs ins ?v2 = (Complete (score ?v2 + correct_count (map snd ins), m), [])"
      using Cons.prems h False by (intro Cons.IH) simp_all
    then obtain m where
      m: "quiz_session qs ins ?v2 = (Complete (score ?v2 + correct_count (map snd ins), m), [])"
      by blast
    have "score ?v2 = score ?v1" by simp
    with step nq m h(1) cc show ?thesis by (simp del: quiz_session.simps)
  qed
qed

lemma correct_count_mset: "mset rs = mset rs' \<Longrightarrow> correct_count rs = correct_count rs'"
proof -
  assume "mset rs = mset rs'"
  then have "mset (filter is_correct rs) = mset (filter is_correct rs')" by simp
  then have "length (filter is_correct rs) = length (filter is_correct rs')"
    by (rule mset_eq_length)
  then show ?thesis by (simp add: correct_count_def)
qed


lemma handleSubmit_basic_score:
  assumes "trim a \<noteq> []" "currentIdx v < length qs"
  shows "score_basic (handleSubmit_basic qs r (v\<lparr>userAnswer := a\<rparr>)) =
           score_basic v + (if is_correct r then 1 else 0)"
    and "currentIdx (handleSubmit_basic qs r (v\<lparr>userAnswer := a\<rparr>)) = currentIdx v"
  using assms by (cases r; simp add: handleSubmit_basic_def is_correct_def)+

lemma handleNext_cases:
  assumes "currentIdx v < length qs"
  shows "(\<exists>v2. handleNext qs v = Continue v2 \<and> score_basic v2 = score_basic v \<and> currentIdx v2 < length qs)
         \<or> handleNext qs v = Complete (score_basic v)"
  using assms by (auto simp: handleNext_def)

lemma tick_cases:
  "(\<exists>v1. tick isExam v = Continue v1 \<and> score_basic v1 = score_basic v \<and> currentIdx v1 = currentIdx v)
   \<or> tick isExam v = Complete (score_basic v)"
  by (auto simp: tick_def)

lemma quiz_session_basic_score:
  assumes "quiz_session_basic qs isExam evs v = (p, rest)" "currentIdx v < length qs"
    and "\<forall>e \<in> set evs. answered e"
  shows "\<exists>pre. evs = pre @ rest \<and>
           score_so_far p = score_basic v + correct_count (concat (map event_result pre))"
  using assms
proof (induction qs isExam evs v arbitrary: p rest rule: quiz_session_basic.induct)
  case (1 qs isExam v)
  then show ?case by (auto simp: score_so_far_def correct_count_def)
next
  case (2 qs isExam events v)
  from tick_cases [of isExam v] show ?case
  proof
    assume "\<exists>v1. tick isExam v = Continue v1 \<and> score_basic v1 = score_basic v \<and> currentIdx v1 = currentIdx v"
    then obtain v1 where v1: "tick isExam v = Continue v1" "score_basic v1 = score_basic v"
      "currentIdx v1 = currentIdx v" by blast
    have "quiz_session_basic qs isExam events v1 = (p, rest)"
      using "2.prems"(1) v1(1) by simp
    from "2.IH" [OF v1(1) this] "2.prems" v1
    obtain pre where "events = pre @ rest"
      "score_so_far p = score_basic v + correct_count (concat (map event_result pre))"
      by auto
    then have "Tick # events = (Tick # pre) @ rest \<and>
        score_so_far p = score_basic v + correct_count (concat (map event_result (Tick # pre)))"
      by simp
    then show ?thesis by blast
  next
    assume "tick isExam v = Complete (score_basic v)"
    with "2.prems"(1) have "p = Complete (score_basic v)" "rest = events" by simp_all
    then have "Tick # events = [Tick] @ rest \<and>
        score_so_far p = score_basic v + correct_count (concat (map event_result [Tick]))"
      by (simp add: score_so_far_def correct_count_def)
    then show ?thesis by blast
  qed
next
  case (3 qs isExam a r events v)
  let ?v1 = "handleSubmit_basic qs r (v\<lparr>userAnswer := a\<rparr>)"
  have a: "trim a \<noteq> []" using "3.prems"(3) by (simp add: answered_def)
  note h = handleSubmit_basic_score [OF a "3.prems"(2), of r]
  have idx: "currentIdx ?v1 < length qs" using h(2) "3.prems"(2) by simp
  have ev: "\<forall>e \<in> set events. answered e" using "3.prems"(3) by simp
  have cc: "\<And>pre. correct_count (concat (map event_result (Answer a r # pre)))
       = (if is_correct r then 1 else 0) + correct_count (concat (map event_result pre))"
    by (simp add: correct_count_def)
  show ?case
  proof (cases "feedback_basic ?v1 = None")
    case True
    then have "quiz_session_basic qs isExam events ?v1 = (p, rest)"
      using "3.prems"(1) by (simp add: Let_def)
    from "3.IH"(1) [OF refl True this idx ev]
    obtain pre where pre: "events = pre @ rest"
      "score_so_far p = score_basic ?v1 + correct_count (concat (map event_result pre))"
      by blast
    then have "Answer a r # events = (Answer a r # pre) @ rest \<and>
        score_so_far p = score_basic v + correct_count (concat (map event_result (Answer a r # pre)))"
      using h(1) cc by simp
    then show ?thesis by blast
  next
    case False
    from handleNext_cases [OF idx] show ?thesis
    proof
      assume "\<exists>v2. handleNext qs ?v1 = Continue v2 \<and> score_basic v2 = score_basic ?v1 \<and> currentIdx v2 < length qs"
      then obtain v2 where v2: "handleNext qs ?v1 = Continue v2" "score_basic v2 = score_basic ?v1"
        "currentIdx v2 < length qs" by blast
      have "quiz_session_basic qs isExam events v2 = (p, rest)"
        using "3.prems"(1) False v2(1) by (simp add: Let_def)
      from "3.IH"(2) [OF refl False v2(1) this v2(3) ev]
      obtain pre where pre: "events = pre @ rest"
        "score_so_far p = score_basic v2 + correct_count (concat (map event_result pre))"
        by blast
      then have "Answer a r # events = (Answer a r # pre) @ rest \<and>
          score_so_far p = score_basic v + correct_count (concat (map event_result (Answer a r # pre)))"
        using h(1) cc v2(2) by simp
      then show ?thesis by blast
    next
      assume c: "handleNext qs ?v1 = Complete (score_basic ?v1)"
      with "3.prems"(1) False have "p = Complete (score_basic ?v1)" "rest = events"
        by (simp_all add: Let_def)
      then have "Answer a r # events = [Answer a r] @ rest \<and>
          score_so_far p = score_basic v + correct_count (concat (map event_result [Answer a r]))"
        using h(1) by (simp add: score_so_far_def correct_count_def)
      then show ?thesis by blast
    qed
  qed
qed


section \<open>The mastery map\<close>





lemma inherited_proto: "inherited ''__proto__'' = Some (Str ''[object Object]'')"
  by (simp add: inherited_def)

lemma inherited_truthy: "inherited k = Some x \<Longrightarrow> \<exists>t. x = Str t \<and> t \<noteq> []"
  unfolding inherited_def native_function_def by (simp split: if_splits) blast+

lemma or0_js_get_Num:
  assumes "or0 (js_get cm c) = Num x"
  shows "inherited c = None \<or> map_of cm c \<noteq> None"
proof (cases "map_of cm c")
  case None
  show ?thesis
  proof (cases "inherited c")
    case (Some v)
    with inherited_truthy obtain t where "v = Str t" "t \<noteq> []" by blast
    with None Some assms show ?thesis by (simp add: js_get_def or0_def)
  qed simp
qed simp

lemma js_get_own: "map_of al k = Some x \<Longrightarrow> js_get al k = Some x"
  by (simp add: js_get_def)

lemma js_get_absent: "map_of al k = None \<Longrightarrow> js_get al k = inherited k"
  by (simp add: js_get_def)









lemma next_question_masteries:
  "next_question qs v = Continue v2 \<Longrightarrow> masteries v2 = masteries v"
  "next_question qs v = Complete (s, m) \<Longrightarrow> m = masteries v"
  by (auto simp: next_question_def split: if_splits)

text \<open>
  A property of the session's map that every submission preserves holds of the map the
  session completes with.
\<close>

lemma quiz_session_masteries_invariant:
  assumes "quiz_session qs ins v = (Complete (s, m), rest)" "P (masteries v)"
    and "\<And>w r. P (masteries w) \<Longrightarrow> P (masteries (handleSubmit qs r w))"
  shows "P m"
  using assms
proof (induction qs ins v rule: quiz_session.induct)
  case (1 qs v)
  then show ?case by simp
next
  case (2 qs a r inputs v)
  let ?v1 = "handleSubmit qs r (v\<lparr>answer := a\<rparr>)"
  note step = "2.prems"(3)
  have n1: "P (masteries ?v1)"
    using "2.prems"(2) step [of "v\<lparr>answer := a\<rparr>" r] by simp
  show ?case
  proof (cases "feedback ?v1 = None")
    case True
    then have "quiz_session qs inputs ?v1 = (Complete (s, m), rest)"
      using "2.prems"(1) by (simp add: Let_def)
    from "2.IH"(1) [OF refl True this n1 step] show ?thesis .
  next
    case False
    show ?thesis
    proof (cases "next_question qs ?v1")
      case (Continue v2)
      then have "quiz_session qs inputs v2 = (Complete (s, m), rest)"
        using "2.prems"(1) False by (simp add: Let_def)
      moreover have "P (masteries v2)"
        using n1 next_question_masteries(1) [OF Continue] by simp
      ultimately show ?thesis using "2.IH"(2) [OF refl False Continue _ _ step] by blast
    next
      case (Complete c)
      then have "c = (s, m)" using "2.prems"(1) False by (simp add: Let_def)
      with Complete have "m = masteries ?v1" using next_question_masteries(2) by blast
      with n1 show ?thesis by simp
    qed
  qed
qed



lemma handleSubmit_masteries_distinct:
  "distinct (map fst (masteries v)) \<Longrightarrow> distinct (map fst (masteries (handleSubmit qs r v)))"
  by (simp add: handleSubmit_def Let_def distinct_update split: sum.splits option.splits)

lemma quiz_session_masteries_distinct:
  assumes "quiz_session qs ins QuizView_init = (Complete (s, m), rest)"
  shows "distinct (map fst m)"
proof (rule quiz_session_masteries_invariant [OF assms])
  show "distinct (map fst (masteries QuizView_init))" by (simp add: QuizView_init_def)
next
  fix r and w :: QuizView assume "distinct (map fst (masteries w))"
  then show "distinct (map fst (masteries (handleSubmit qs r w)))"
    by (rule handleSubmit_masteries_distinct)
qed

lemma js_set_other: "c \<noteq> k \<Longrightarrow> map_of (js_set cm k x) c = map_of cm c"
  by (simp add: js_set_def update_conv')

lemma js_get_js_set_other: "c \<noteq> k \<Longrightarrow> js_get (js_set cm k x) c = js_get cm c"
  by (simp add: js_get_def js_set_other)

lemma js_set_same: "inherited k = None \<or> map_of cm k \<noteq> None \<Longrightarrow> map_of (js_set cm k x) k = Some x"
  using inherited_proto by (auto simp: js_set_def update_conv')

lemma js_set_map_of:
  "map_of (js_set cm k x) k = (if k = ''__proto__'' \<and> map_of cm k = None then None else Some x)"
  by (auto simp: js_set_def update_conv')

lemma js_set_distinct: "distinct (map fst cm) \<Longrightarrow> distinct (map fst (js_set cm k x))"
  by (simp add: js_set_def distinct_update)



lemma merge_masteries_frame:
  "c \<notin> fst ` set es \<Longrightarrow> map_of (merge_masteries es cm) c = map_of cm c"
proof (induction es cm rule: merge_masteries.induct)
  case (1 cm)
  then show ?case by simp
next
  case (2 cid increase entries cm)
  then have "c \<noteq> cid" "c \<notin> fst ` set entries" by auto
  with "2.IH" show ?case by (simp add: js_set_other)
qed

lemma merge_masteries_entry:
  assumes "distinct (map fst es)" "map_of es c = Some d"
  shows "map_of (merge_masteries es cm) c
           = map_of (js_set cm c (Math_min (Num 100) (js_add (or0 (js_get cm c)) d))) c"
  using assms
proof (induction es cm rule: merge_masteries.induct)
  case (1 cm)
  then show ?case by simp
next
  case (2 cid increase entries cm)
  let ?cm = "js_set cm cid (Math_min (Num 100) (js_add (or0 (js_get cm cid)) increase))"
  show ?case
  proof (cases "c = cid")
    case True
    with "2.prems" have "d = increase" "c \<notin> fst ` set entries" by auto
    then have "map_of (merge_masteries entries ?cm) c = map_of ?cm c"
      by (simp add: merge_masteries_frame)
    with True \<open>d = increase\<close> show ?thesis by simp
  next
    case False
    with "2.prems" have "distinct (map fst entries)" "map_of entries c = Some d" by auto
    then have "map_of (merge_masteries entries ?cm) c
        = map_of (js_set ?cm c (Math_min (Num 100) (js_add (or0 (js_get ?cm c)) d))) c"
      by (rule "2.IH")
    moreover have "js_get ?cm c = js_get cm c" using False by (simp add: js_get_js_set_other)
    moreover have "map_of ?cm c = map_of cm c" using False by (simp add: js_set_other)
    ultimately show ?thesis by (simp only: js_set_map_of merge_masteries.simps)
  qed
qed

lemma merge_masteries_number:
  assumes "distinct (map fst es)" "map_of es c = Some (Num y)" "or0 (js_get cm c) = Num x"
  shows "map_of (merge_masteries es cm) c = Some (Num (min 100 (x + y)))"
proof -
  have "inherited c = None \<or> map_of cm c \<noteq> None"
    using assms(3) by (rule or0_js_get_Num)
  then have "map_of (js_set cm c (Num (min 100 (x + y)))) c = Some (Num (min 100 (x + y)))"
    by (rule js_set_same)
  with merge_masteries_entry [OF assms(1,2), of cm] assms(3) show ?thesis
    by (simp add: js_add_def Math_min_def to_number_def)
qed

lemma merge_masteries_distinct:
  "distinct (map fst cm) \<Longrightarrow> distinct (map fst (merge_masteries es cm))"
  by (induction es cm rule: merge_masteries.induct) (simp_all add: js_set_distinct)

lemma onComplete_Inr:
  assumes "onComplete now a s ms = Inr a'"
  shows "\<exists>u sd. user a = Some u \<and> studyData a = Some sd
           \<and> user a' = Some (updatedUser now a u sd s ms)"
  using assms by (auto simp: onComplete_def split: option.splits sum.splits)

section \<open>Reading and writing the user list\<close>

lemma getUsers_after_save:
  "distinct_keys (JArr us) \<Longrightarrow>
     getUsers (setItem st ''mp_users'' (JSON_stringify (JArr us))) = Inr (JArr us)"
  using JSON_parse_stringify [of "JArr us"]
  by (simp add: getUsers_def getItem_def setItem_def or_else_def del: parser_simps)

lemma distinct_keys_elems_iff: "distinct_keys_elems us = (\<forall>e \<in> set us. distinct_keys e)"
  by (induction us) auto

lemma distinct_keys_members_iff: "distinct_keys_members kvs = (\<forall>(k, v) \<in> set kvs. distinct_keys v)"
  by (induction kvs) auto

lemma getUsers_distinct_keys: "getUsers st = Inr (JArr us) \<Longrightarrow> distinct_keys_elems us"
  using JSON_parse_distinct_keys [of _ "JArr us"] by (simp add: getUsers_def)

lemma findIndex_from_found:
  assumes "findIndex_from p i0 us = Inr i" "i > - 1" "0 \<le> i0" "p new = Inr True"
  shows "i0 \<le> i \<and> nat (i - i0) < length us
         \<and> findIndex_from p i0 (us[nat (i - i0) := new]) = Inr i"
  using assms
proof (induction us arbitrary: i0)
  case Nil
  then show ?case by simp
next
  case (Cons u us)
  from Cons.prems(1) obtain b where b: "p u = Inr b" by (cases "p u") auto
  show ?case
  proof (cases b)
    case True
    with Cons.prems b have "i = i0" by simp
    with Cons.prems show ?thesis by simp
  next
    case False
    with Cons.prems(1) b have f: "findIndex_from p (i0 + 1) us = Inr i" by simp
    from Cons.IH [OF f Cons.prems(2) _ Cons.prems(4)] Cons.prems(3)
    have ih: "i0 + 1 \<le> i" "nat (i - (i0 + 1)) < length us"
      "findIndex_from p (i0 + 1) (us[nat (i - (i0 + 1)) := new]) = Inr i"
      by simp_all
    have n: "nat (i - i0) = Suc (nat (i - (i0 + 1)))"
      using ih(1) by arith
    from ih b False show ?thesis by (simp add: n)
  qed
qed

lemma findIndex_from_missing:
  assumes "findIndex_from p i0 us = Inr i" "\<not> i > - 1" "0 \<le> i0" "p new = Inr True"
  shows "findIndex_from p i0 (us @ [new]) = Inr (i0 + int (length us))"
  using assms
proof (induction us arbitrary: i0)
  case Nil
  then show ?case by simp
next
  case (Cons u us)
  from Cons.prems(1) obtain b where b: "p u = Inr b" by (cases "p u") auto
  show ?case
  proof (cases b)
    case True
    with Cons.prems b show ?thesis by simp
  next
    case False
    with Cons.prems(1) b have f: "findIndex_from p (i0 + 1) us = Inr i" by simp
    from Cons.IH [OF f Cons.prems(2) _ Cons.prems(4)] Cons.prems(3)
    have "findIndex_from p (i0 + 1) (us @ [new]) = Inr (i0 + 1 + int (length us))" by simp
    with b False show ?thesis by simp
  qed
qed

lemma setItem_twice: "setItem (setItem st k v) k v = setItem st k v"
  by (simp add: setItem_def)

lemma saveUser_by_idempotent:
  assumes dk: "distinct_keys new" and same: "same_prop k new new = Inr True"
  shows "(case saveUser_by k st new of Inl e \<Rightarrow> Inl e | Inr st1 \<Rightarrow> saveUser_by k st1 new)
           = saveUser_by k st new"
proof (cases "getUsers st")
  case (Inl e)
  then show ?thesis by (simp add: saveUser_by_def)
next
  case (Inr users)
  show ?thesis
  proof (cases "\<exists>us. users = JArr us")
    case False
    with Inr show ?thesis by (cases users) (simp_all add: saveUser_by_def)
  next
    case True
    then obtain us where us: "users = JArr us" by blast
    have dus: "\<forall>e \<in> set us. distinct_keys e"
      using getUsers_distinct_keys Inr us by (simp add: distinct_keys_elems_iff)
    show ?thesis
    proof (cases "findIndex (same_prop k new) us")
      case (Inl e)
      with Inr us show ?thesis by (simp add: saveUser_by_def)
    next
      case fi: (Inr i)
      let ?us' = "if i > - 1 then us[nat i := new] else us @ [new]"
      let ?st1 = "setItem st ''mp_users'' (JSON_stringify (JArr ?us'))"
      have first: "saveUser_by k st new = Inr ?st1"
        using Inr us fi by (simp add: saveUser_by_def del: JSON_stringify.simps)
      have "\<forall>e \<in> set ?us'. distinct_keys e"
        using dus dk set_update_subset_insert [of us "nat i" new] by auto
      then have "distinct_keys (JArr ?us')" by (simp add: distinct_keys_elems_iff)
      then have g: "getUsers ?st1 = Inr (JArr ?us')" by (rule getUsers_after_save)
      have again: "findIndex (same_prop k new) ?us' = Inr (if i > - 1 then i else int (length us))
                   \<and> (i > - 1 \<longrightarrow> nat i < length us)"
      proof (cases "i > - 1")
        case True
        from findIndex_from_found [OF fi [unfolded findIndex_def] True _ same]
        show ?thesis using True by (simp add: findIndex_def)
      next
        case False
        from findIndex_from_missing [OF fi [unfolded findIndex_def] False _ same]
        show ?thesis using False by (simp add: findIndex_def)
      qed
      have same_list: "(if (if i > - 1 then i else int (length us)) > - 1
                        then ?us'[nat (if i > - 1 then i else int (length us)) := new]
                        else ?us' @ [new]) = ?us'"
        using again by auto
      have "saveUser_by k ?st1 new = Inr (setItem ?st1 ''mp_users'' (JSON_stringify (JArr ?us')))"
        using g again same_list
        by (simp add: saveUser_by_def del: JSON_stringify.simps split del: if_split)
      then have "saveUser_by k ?st1 new = Inr ?st1" by (simp only: setItem_twice)
      with first show ?thesis by simp
    qed
  qed
qed


lemma strict_eq_JStr: "strict_eq a (Some (JStr i)) = (a = Some (JStr i))"
  by (cases "(a, Some (JStr i))" rule: strict_eq.cases) auto

lemma same_prop_has_prop:
  assumes "e \<noteq> JNull" "get_prop new k = Inr (Some (JStr i))"
  shows "same_prop k new e = Inr (has_prop k (JStr i) e)"
  using assms by (cases e) (auto simp: same_prop_def has_prop_def get_prop_def strict_eq_JStr)

lemma findIndex_from_upsert:
  assumes "JNull \<notin> set us" "get_prop new k = Inr (Some (JStr idv))" "0 \<le> i0"
  shows "\<exists>i. findIndex_from (same_prop k new) i0 us = Inr i
           \<and> (if i > - 1 then i0 \<le> i \<and> us[nat (i - i0) := new] = upsert (has_prop k (JStr idv)) new us
               else upsert (has_prop k (JStr idv)) new us = us @ [new])"
  using assms
proof (induction us arbitrary: i0)
  case Nil
  then show ?case by simp
next
  case (Cons e us)
  then have e: "same_prop k new e = Inr (has_prop k (JStr idv) e)"
    by (intro same_prop_has_prop) auto
  show ?case
  proof (cases "has_prop k (JStr idv) e")
    case True
    with e Cons.prems(3) show ?thesis by simp
  next
    case False
    from Cons.IH [of "i0 + 1"] Cons.prems obtain i where
      i: "findIndex_from (same_prop k new) (i0 + 1) us = Inr i"
         "if i > - 1 then i0 + 1 \<le> i \<and> us[nat (i - (i0 + 1)) := new] = upsert (has_prop k (JStr idv)) new us
          else upsert (has_prop k (JStr idv)) new us = us @ [new]"
      by auto
    show ?thesis
    proof (cases "i > - 1")
      case True
      with i(2) have le: "i0 + 1 \<le> i" by simp
      then have n: "nat (i - i0) = Suc (nat (i - (i0 + 1)))" by arith
      from True i e False le show ?thesis by (simp add: n)
    next
      case f: False
      with i e False show ?thesis by simp
    qed
  qed
qed

lemma saveUser_by_upsert:
  assumes "getUsers st = Inr (JArr us)" "JNull \<notin> set us" "get_prop new k = Inr (Some (JStr idv))"
  shows "saveUser_by k st new =
     Inr (setItem st ''mp_users'' (JSON_stringify (JArr (upsert (has_prop k (JStr idv)) new us))))"
proof -
  from findIndex_from_upsert [OF assms(2,3), of 0] obtain i where
    i: "findIndex_from (same_prop k new) 0 us = Inr i"
    and r: "if i > - 1
        then 0 \<le> i \<and> us[nat (i - 0) := new] = upsert (has_prop k (JStr idv)) new us
        else upsert (has_prop k (JStr idv)) new us = us @ [new]"
    by blast
  from r have "(if i > - 1 then us[nat i := new] else us @ [new])
                 = upsert (has_prop k (JStr idv)) new us"
    by (simp split: if_splits)
  with assms(1) i show ?thesis
    by (simp add: saveUser_by_def findIndex_def del: JSON_stringify.simps split del: if_split)
qed

lemma optional_keys:
  "map fst (optional k f x) = (case x of None \<Rightarrow> [] | Some a \<Rightarrow> [k])"
  by (simp add: optional_def split: option.splits)

lemma distinct_keys_QuizRecord_json: "distinct_keys (QuizRecord_json h)"
  by (cases "sheetId h") (simp_all add: QuizRecord_json_def optional_def)

lemma distinct_keys_UserProfile_json: "distinct_keys (UserProfile_json p)"
  by (cases "examDate p"; cases "dailyTimeLimit p")
     (simp_all add: UserProfile_json_def optional_def)

lemma distinct_keys_User_basic_json: "distinct_keys (User_basic_json b)"
  by (simp add: User_basic_json_def distinct_keys_elems_iff distinct_keys_QuizRecord_json)

lemma mastery_json_keys: "map fst (map (\<lambda>(c, v). (c, jsval_json v)) cm) = map fst cm"
  by (induction cm) auto

lemma distinct_keys_jsval_json: "distinct_keys (jsval_json v)"
  by (cases v) (simp_all add: jsval_json_def)

lemma mastery_json_distinct_keys: "distinct_keys_members (map (\<lambda>(c, v). (c, jsval_json v)) cm)"
  by (induction cm) (auto simp: distinct_keys_jsval_json)

lemma distinct_keys_User_jsonD:
  "distinct_keys (User_json u) \<Longrightarrow> distinct (map fst (conceptMastery u))"
  by (simp add: User_json_def mastery_json_keys del: map_map)

lemma distinct_keys_User_json:
  "distinct (map fst (conceptMastery u)) \<Longrightarrow> distinct_keys (User_json u)"
  by (simp add: User_json_def distinct_keys_elems_iff mastery_json_keys
      mastery_json_distinct_keys distinct_keys_QuizRecord_json distinct_keys_UserProfile_json
      del: map_map)

lemma User_json_id: "get_prop (User_json u) ''id'' = Inr (Some (JStr (user_id u)))"
  by (simp add: User_json_def get_prop_def)

lemma User_basic_json_username:
  "get_prop (User_basic_json b) ''username'' = Inr (Some (JStr (username_basic b)))"
  by (simp add: User_basic_json_def get_prop_def)

lemma JSON_parse_null: "JSON_parse ''null'' = Inr JNull"
  by (simp add: JSON_parse_def skip_ws_def is_ws_def strip_prefix_def)

lemma JSON_parse_empty_array: "JSON_parse ''[]'' = Inr (JArr [])"
  by (simp add: JSON_parse_def skip_ws_def is_ws_def)

lemma getUsers_empty: "getUsers Map.empty = Inr (JArr [])"
  by (simp add: getUsers_def getItem_def or_else_def JSON_parse_def skip_ws_def is_ws_def)

lemma saveUser_by_empty:
  "saveUser_by k Map.empty new = Inr (setItem Map.empty ''mp_users'' (JSON_stringify (JArr [new])))"
  by (simp add: saveUser_by_def getUsers_empty findIndex_def del: JSON_stringify.simps)


lemma finishQuiz_fresh_storage:
  "finishQuiz now (quiz_app_basic w qs Map.empty) s =
     Inr ((quiz_app_basic w qs Map.empty)
       \<lparr>localStorage_basic :=
           setCurrentUser
             (setItem Map.empty ''mp_users''
               (JSON_stringify (JArr [User_basic_json
                  (updatedUser_basic now (quiz_app_basic w qs Map.empty) w s)])))
             (User_basic_json (updatedUser_basic now (quiz_app_basic w qs Map.empty) w s)),
        user_basic := Some (updatedUser_basic now (quiz_app_basic w qs Map.empty) w s),
        finalScore := Some (s, int (length qs)),
        mode_basic := Dashboard\<rparr>)"
  by (simp add: finishQuiz_def quiz_app_basic_def saveUser_basic_def saveUser_by_empty
      del: JSON_stringify.simps)

lemma findIndex_from_bound:
  "findIndex_from p i0 us = Inr i \<Longrightarrow> i > - 1 \<Longrightarrow> 0 \<le> i0 \<Longrightarrow> i0 \<le> i \<and> nat (i - i0) < length us"
proof (induction us arbitrary: i0)
  case Nil
  then show ?case by simp
next
  case (Cons u us)
  from Cons.prems(1) obtain b where b: "p u = Inr b" by (cases "p u") auto
  show ?case
  proof (cases b)
    case True
    with Cons.prems b show ?thesis by simp
  next
    case False
    with Cons.prems(1) b have "findIndex_from p (i0 + 1) us = Inr i" by simp
    from Cons.IH [OF this Cons.prems(2)] Cons.prems(3)
    have "i0 + 1 \<le> i \<and> nat (i - (i0 + 1)) < length us" by simp
    then show ?thesis by auto
  qed
qed

lemma saveUser_by_stores:
  assumes "saveUser_by k st new = Inr st1" "distinct_keys new"
  shows "\<exists>us. getUsers st1 = Inr (JArr us) \<and> new \<in> set us"
proof -
  from assms(1) obtain us i where
    us: "getUsers st = Inr (JArr us)" and i: "findIndex (same_prop k new) us = Inr i"
    and st1: "st1 = setItem st ''mp_users''
        (JSON_stringify (JArr (if i > - 1 then us[nat i := new] else us @ [new])))"
    by (auto simp: saveUser_by_def split: sum.splits json.splits simp del: JSON_stringify.simps)
  let ?us = "if i > - 1 then us[nat i := new] else us @ [new]"
  have "\<forall>e \<in> set us. distinct_keys e"
    using getUsers_distinct_keys [OF us] by (simp add: distinct_keys_elems_iff)
  then have "\<forall>e \<in> set ?us. distinct_keys e"
    using assms(2) set_update_subset_insert [of us "nat i" new] by auto
  then have "distinct_keys (JArr ?us)" by (simp add: distinct_keys_elems_iff)
  then have g: "getUsers st1 = Inr (JArr ?us)" unfolding st1 by (rule getUsers_after_save)
  have "new \<in> set ?us"
  proof (cases "i > - 1")
    case True
    from findIndex_from_bound [OF i [unfolded findIndex_def] True] have "nat i < length us" by simp
    with True show ?thesis by (simp add: set_update_memI)
  next
    case False
    then show ?thesis by simp
  qed
  with g show ?thesis by blast
qed


text \<open>What \<^verbatim>\<open>saveUser\<close> leaves as the stored record of the user it saved.\<close>

lemma same_prop_null: "same_prop k new JNull = Inl TypeError"
  by (simp add: same_prop_def get_prop_def)

lemma findIndex_from_find:
  assumes "findIndex_from (same_prop k new) i0 us = Inr i"
    and "get_prop new k = Inr (Some (JStr idv))" "0 \<le> i0"
  shows "find (has_prop k (JStr idv)) (if i > - 1 then us[nat (i - i0) := new] else us @ [new])
           = Some new"
  using assms
proof (induction us arbitrary: i0)
  case Nil
  then show ?case by (simp add: has_prop_def)
next
  case (Cons e us)
  have new: "has_prop k (JStr idv) new" using Cons.prems(2) by (simp add: has_prop_def)
  have "e \<noteq> JNull" using Cons.prems(1) by (auto simp: same_prop_null)
  then have e: "same_prop k new e = Inr (has_prop k (JStr idv) e)"
    using Cons.prems(2) by (rule same_prop_has_prop)
  show ?case
  proof (cases "has_prop k (JStr idv) e")
    case True
    with e Cons.prems have "i = i0" by simp
    with Cons.prems(3) new show ?thesis by simp
  next
    case False
    with e Cons.prems(1) have f: "findIndex_from (same_prop k new) (i0 + 1) us = Inr i" by simp
    from Cons.IH [OF f Cons.prems(2)] Cons.prems(3)
    have ih: "find (has_prop k (JStr idv))
        (if i > - 1 then us[nat (i - (i0 + 1)) := new] else us @ [new]) = Some new"
      by simp
    show ?thesis
    proof (cases "i > - 1")
      case True
      from findIndex_from_bound [OF f True] Cons.prems(3) have le: "i0 + 1 \<le> i" by simp
      then have n: "nat (i - i0) = Suc (nat (i - (i0 + 1)))" by arith
      from ih True False show ?thesis by (simp add: n)
    next
      case f: False
      with ih False show ?thesis by simp
    qed
  qed
qed

lemma saveUser_by_stored:
  assumes "saveUser_by k st new = Inr st1" "distinct_keys new"
    and "get_prop new k = Inr (Some (JStr idv))"
  shows "stored_record k st1 idv = Some new"
    and "getItem st1 ''mp_current_user'' = getItem st ''mp_current_user''"
proof -
  from assms(1) obtain us i where
    us: "getUsers st = Inr (JArr us)" and i: "findIndex (same_prop k new) us = Inr i"
    and st1: "st1 = setItem st ''mp_users''
        (JSON_stringify (JArr (if i > - 1 then us[nat i := new] else us @ [new])))"
    by (auto simp: saveUser_by_def split: sum.splits json.splits simp del: JSON_stringify.simps)
  let ?us = "if i > - 1 then us[nat i := new] else us @ [new]"
  have "\<forall>e \<in> set us. distinct_keys e"
    using getUsers_distinct_keys [OF us] by (simp add: distinct_keys_elems_iff)
  then have "\<forall>e \<in> set ?us. distinct_keys e"
    using assms(2) set_update_subset_insert [of us "nat i" new] by auto
  then have "distinct_keys (JArr ?us)" by (simp add: distinct_keys_elems_iff)
  then have g: "getUsers st1 = Inr (JArr ?us)" unfolding st1 by (rule getUsers_after_save)
  from findIndex_from_find [OF i [unfolded findIndex_def] assms(3)]
  have "find (has_prop k (JStr idv)) ?us = Some new" by (simp split: if_splits)
  with g show "stored_record k st1 idv = Some new" by (simp add: stored_record_def)
  show "getItem st1 ''mp_current_user'' = getItem st ''mp_current_user''"
    unfolding st1 by (simp add: getItem_def setItem_def)
qed

lemma stored_record_distinct_keys:
  assumes "stored_record k st x = Some j"
  shows "distinct_keys j"
proof -
  from assms obtain us where us: "getUsers st = Inr (JArr us)"
    and f: "find (has_prop k (JStr x)) us = Some j"
    by (auto simp: stored_record_def split: sum.splits json.splits)
  from f have "j \<in> set us" by (auto simp: find_Some_iff)
  with getUsers_distinct_keys [OF us] show ?thesis by (simp add: distinct_keys_elems_iff)
qed

lemma getCurrentUser_setCurrentUser:
  "distinct_keys j \<Longrightarrow> getCurrentUser (setCurrentUser st j) = Inr j"
proof -
  assume d: "distinct_keys j"
  obtain c cs where "JSON_stringify j = c # cs" using stringify_head by blast
  then have "JSON_stringify j \<noteq> []" by simp
  with JSON_parse_stringify [OF d] show ?thesis
    by (simp add: getCurrentUser_def setCurrentUser_def getItem_def setItem_def or_else_def
        del: parser_simps JSON_stringify.simps)
qed

lemma getCurrentUser_cong:
  "getItem st1 ''mp_current_user'' = getItem st ''mp_current_user'' \<Longrightarrow>
   getCurrentUser st1 = getCurrentUser st"
  by (simp add: getCurrentUser_def)

lemma getUsers_setCurrentUser: "getUsers (setCurrentUser st j) = getUsers st"
  by (simp add: getUsers_def setCurrentUser_def getItem_def setItem_def)

lemma stored_record_setCurrentUser:
  "stored_record k (setCurrentUser st j) x = stored_record k st x"
  by (simp add: stored_record_def getUsers_setCurrentUser)

text \<open>The storage after a first sign-in holds the user twice: in the list and as the current user.\<close>

lemma signed_in_reads:
  assumes "distinct_keys j" "get_prop j k = Inr (Some (JStr x))"
  shows "getUsers (signed_in j) = Inr (JArr [j])"
    and "getCurrentUser (signed_in j) = Inr j"
    and "stored_record k (signed_in j) x = Some j"
proof -
  have "distinct_keys (JArr [j])" using assms(1) by simp
  then show g: "getUsers (signed_in j) = Inr (JArr [j])"
    unfolding signed_in_def getUsers_setCurrentUser by (rule getUsers_after_save)
  show "getCurrentUser (signed_in j) = Inr j"
    unfolding signed_in_def using assms(1) by (rule getCurrentUser_setCurrentUser)
  show "stored_record k (signed_in j) x = Some j"
    using g assms(2) by (simp add: stored_record_def has_prop_def)
qed

text \<open>
  \<^verbatim>\<open>onComplete\<close> and \<^verbatim>\<open>finishQuiz\<close>: what the user list holds afterwards, and what has
  become of the current user.
\<close>

lemma onComplete_stored:
  assumes "user a = Some u" "distinct (map fst (conceptMastery u))"
    and "onComplete now a s m = Inr a'"
  shows "\<exists>sd. studyData a = Some sd \<and> user a' = Some (updatedUser now a u sd s m)
           \<and> stored_record ''id'' (localStorage a') (user_id u)
               = Some (User_json (updatedUser now a u sd s m))
           \<and> getCurrentUser (localStorage a') = getCurrentUser (localStorage a)"
proof -
  from assms(1,3) obtain sd st1 where
    sd: "studyData a = Some sd"
    and sv: "saveUser (localStorage a) (User_json (updatedUser now a u sd s m)) = Inr st1"
    and a': "a' = a\<lparr>localStorage := st1, user := Some (updatedUser now a u sd s m), mode := Dashboard\<rparr>"
    by (auto simp: onComplete_def split: option.splits sum.splits)
  let ?u = "updatedUser now a u sd s m"
  have "distinct (map fst (conceptMastery ?u))"
    using assms(2) by (simp add: updatedUser_def merge_masteries_distinct)
  then have d: "distinct_keys (User_json ?u)" by (rule distinct_keys_User_json)
  have i: "get_prop (User_json ?u) ''id'' = Inr (Some (JStr (user_id u)))"
    using User_json_id [of ?u] by (simp add: updatedUser_def)
  note r = saveUser_by_stored [OF sv [unfolded saveUser_def] d i]
  from r(2) have "getCurrentUser st1 = getCurrentUser (localStorage a)"
    by (rule getCurrentUser_cong)
  with r(1) a' sd show ?thesis by simp
qed

lemma finishQuiz_stored:
  assumes "user_basic b = Some w" "finishQuiz now b s = Inr b'"
  shows "user_basic b' = Some (updatedUser_basic now b w s)
         \<and> stored_record ''username'' (localStorage_basic b') (username_basic w)
             = Some (User_basic_json (updatedUser_basic now b w s))
         \<and> getCurrentUser (localStorage_basic b') = Inr (User_basic_json (updatedUser_basic now b w s))"
proof -
  let ?w = "updatedUser_basic now b w s"
  from assms obtain st1 where
    sv: "saveUser_basic (localStorage_basic b) (User_basic_json ?w) = Inr st1"
    and b': "b' = b\<lparr>localStorage_basic := setCurrentUser st1 (User_basic_json ?w),
                     user_basic := Some ?w,
                     finalScore := Some (s, int (length (questions_basic b))),
                     mode_basic := Dashboard\<rparr>"
    by (auto simp: finishQuiz_def split: sum.splits)
  have d: "distinct_keys (User_basic_json ?w)" by (rule distinct_keys_User_basic_json)
  have i: "get_prop (User_basic_json ?w) ''username'' = Inr (Some (JStr (username_basic w)))"
    using User_basic_json_username [of ?w] by (simp add: updatedUser_basic_def)
  note r = saveUser_by_stored(1) [OF sv [unfolded saveUser_basic_def] d i]
  from r b' getCurrentUser_setCurrentUser [OF d] show ?thesis
    by (simp add: stored_record_setCurrentUser)
qed

text \<open>On a readable user list without \<^verbatim>\<open>null\<close> entries both handlers succeed.\<close>

lemma onComplete_succeeds:
  assumes "user a = Some u" "studyData a = Some sd"
    and "getUsers (localStorage a) = Inr (JArr us)" "JNull \<notin> set us"
  shows "\<exists>a'. onComplete now a s m = Inr a'"
  using assms saveUser_by_upsert [OF assms(3,4) User_json_id, of "updatedUser now a u sd s m"]
  by (simp add: onComplete_def saveUser_def del: JSON_stringify.simps)

lemma finishQuiz_succeeds:
  assumes "user_basic b = Some w"
    and "getUsers (localStorage_basic b) = Inr (JArr us)" "JNull \<notin> set us"
  shows "\<exists>b'. finishQuiz now b s = Inr b'"
  using assms
    saveUser_by_upsert [OF assms(2,3) User_basic_json_username, of "updatedUser_basic now b w s"]
  by (simp add: finishQuiz_def saveUser_basic_def del: JSON_stringify.simps)

lemma User_json_not_null: "User_json u \<noteq> JNull" "User_basic_json w \<noteq> JNull"
  by (simp_all add: User_json_def User_basic_json_def)


lemma onComplete_single:
  assumes "user a = Some u" "studyData a = Some sd" "distinct (map fst (conceptMastery u))"
    and "getUsers (localStorage a) = Inr (JArr [j])" "has_prop ''id'' (JStr (user_id u)) j"
  shows "\<exists>a'. onComplete now a s m = Inr a'
           \<and> user a' = Some (updatedUser now a u sd s m)
           \<and> getUsers (localStorage a') = Inr (JArr [User_json (updatedUser now a u sd s m)])
           \<and> stored_record ''id'' (localStorage a') (user_id u)
               = Some (User_json (updatedUser now a u sd s m))
           \<and> getCurrentUser (localStorage a') = getCurrentUser (localStorage a)"
proof -
  let ?u = "updatedUser now a u sd s m"
  have n: "JNull \<notin> set [j]" using assms(5) by (auto simp: has_prop_def get_prop_def)
  have "distinct (map fst (conceptMastery ?u))"
    using assms(3) by (simp add: updatedUser_def merge_masteries_distinct)
  then have d: "distinct_keys (JArr [User_json ?u])" by (simp add: distinct_keys_User_json)
  have sv: "saveUser (localStorage a) (User_json ?u)
      = Inr (setItem (localStorage a) ''mp_users'' (JSON_stringify (JArr [User_json ?u])))"
    using saveUser_by_upsert [OF assms(4) n User_json_id, of ?u] assms(5)
    by (simp add: saveUser_def updatedUser_def del: JSON_stringify.simps)
  let ?a' = "a\<lparr>localStorage := setItem (localStorage a) ''mp_users''
                 (JSON_stringify (JArr [User_json ?u])),
               user := Some ?u, mode := Dashboard\<rparr>"
  have o: "onComplete now a s m = Inr ?a'"
    using assms(1,2) sv by (simp add: onComplete_def del: JSON_stringify.simps)
  from onComplete_stored [OF assms(1,3) o] assms(2) getUsers_after_save [OF d] o
  show ?thesis by (simp del: JSON_stringify.simps)
qed

lemma finishQuiz_single:
  assumes "user_basic b = Some w"
    and "getUsers (localStorage_basic b) = Inr (JArr [j])"
    and "has_prop ''username'' (JStr (username_basic w)) j"
  shows "\<exists>b'. finishQuiz now b s = Inr b'"
proof -
  have "JNull \<notin> set [j]" using assms(3) by (auto simp: has_prop_def get_prop_def)
  with assms(1,2) show ?thesis by (rule finishQuiz_succeeds)
qed

text \<open>
  A concept with no entry in the session's map has, in the record \<^verbatim>\<open>onComplete\<close> saves,
  the mastery it has in the record the application holds.
\<close>

lemma onComplete_frame:
  assumes "user a = Some u" "distinct (map fst (conceptMastery u))"
    and "onComplete now a s m = Inr a'" "c \<notin> fst ` set m"
  shows "\<exists>u'. stored_record ''id'' (localStorage a') (user_id u) = Some (User_json u')
           \<and> map_of (conceptMastery u') c = map_of (conceptMastery u) c"
proof -
  from onComplete_stored [OF assms(1,2,3)] obtain sd where
    "stored_record ''id'' (localStorage a') (user_id u)
       = Some (User_json (updatedUser now a u sd s m))" by auto
  moreover have "map_of (conceptMastery (updatedUser now a u sd s m)) c = map_of (conceptMastery u) c"
    using assms(4) by (simp add: updatedUser_def merge_masteries_frame)
  ultimately show ?thesis by blast
qed

section \<open>Sessions that complete\<close>

lemmas session_defs = handleSubmit_def next_question_def current_def QuizView_init_def
  trim_def is_space_def or0_def js_get_def js_add_def js_sub_def Math_max_def Math_min_def
  to_number_def question_on_def graded_def Let_def

lemma quiz_session_complete:
  assumes "qs \<noteq> []" "length ins = length qs" "\<forall>(a, r) \<in> set ins. trim a \<noteq> []"
  shows "\<exists>m. quiz_session qs ins QuizView_init = (Complete (correct_count (map snd ins), m), [])"
proof -
  have "\<exists>m. quiz_session qs ins QuizView_init
          = (Complete (score QuizView_init + correct_count (map snd ins), m), [])"
    using assms by (intro quiz_session_total) (auto simp: QuizView_init_def)
  then show ?thesis by (simp add: QuizView_init_def)
qed

lemma quiz_session_basic_complete:
  assumes "qs \<noteq> []" "\<forall>e \<in> set evs. answered e"
    and "quiz_session_basic qs isExam evs (QuizView_basic_init qs isExam) = (Complete s, [])"
  shows "s = correct_count (concat (map event_result evs))"
proof -
  have "currentIdx (QuizView_basic_init qs isExam) < length qs"
    using assms(1) by (simp add: QuizView_basic_init_def)
  from quiz_session_basic_score [OF assms(3) this assms(2)]
  show ?thesis by (simp add: score_so_far_def QuizView_basic_init_def)
qed

lemmas basic_session_defs = handleSubmit_basic_def handleNext_def tick_def
  QuizView_basic_init_def trim_def is_space_def question_on_def graded_def Let_def

section \<open>The claims\<close>

text \<open>
  C1, as the code has it. On a wrong answer, when the value the handler reads for the
  question's concept in the session's map (\<^verbatim>\<open>prev[id] || 0\<close>, so 0 when there is no entry)
  is a number \<open>x\<close>, the entry becomes \<open>max 0 (x - 5)\<close>. When the session completes while the
  record of the user that the application holds is the record the user list stores, the
  stored mastery of a concept whose entry in the session's map is a number \<open>y\<close>, and whose
  stored value (0 when absent) is a number \<open>x'\<close>, becomes \<open>min 100 (x' + y)\<close>.
\<close>

theorem wrong_answer_lowers_session_adjustment:
  "(trim (answer v) \<noteq> [] \<and> \<not> loading v \<and> current qs v = Some q \<and> \<not> isCorrect res
      \<and> or0 (js_get (masteries v) (conceptId q)) = Num x \<longrightarrow>
      js_get (masteries (handleSubmit qs (Inr res) v)) (conceptId q) = Some (Num (max 0 (x - 5))))
   \<and> (user a = Some u
        \<and> stored_record ''id'' (localStorage a) (user_id u) = Some (User_json u)
        \<and> quiz_session (questions a) ins QuizView_init = (Complete (s, m), rest)
        \<and> onComplete now a s m = Inr a' \<and> map_of m c = Some (Num y)
        \<and> or0 (js_get (conceptMastery u) c) = Num x' \<longrightarrow>
      (\<exists>u'. stored_record ''id'' (localStorage a') (user_id u) = Some (User_json u')
         \<and> user a' = Some u'
         \<and> js_get (conceptMastery u') c = Some (Num (min 100 (x' + y)))))"
proof (intro conjI impI)
  assume "trim (answer v) \<noteq> [] \<and> \<not> loading v \<and> current qs v = Some q \<and> \<not> isCorrect res
      \<and> or0 (js_get (masteries v) (conceptId q)) = Num x"
  then show "js_get (masteries (handleSubmit qs (Inr res) v)) (conceptId q)
        = Some (Num (max 0 (x - 5)))"
    by (simp add: handleSubmit_def Let_def update_conv' js_get_own js_sub_def Math_max_def
        to_number_def)
next
  assume h: "user a = Some u
        \<and> stored_record ''id'' (localStorage a) (user_id u) = Some (User_json u)
        \<and> quiz_session (questions a) ins QuizView_init = (Complete (s, m), rest)
        \<and> onComplete now a s m = Inr a' \<and> map_of m c = Some (Num y)
        \<and> or0 (js_get (conceptMastery u) c) = Num x'"
  then have "distinct_keys (User_json u)" using stored_record_distinct_keys by blast
  then have du: "distinct (map fst (conceptMastery u))" by (rule distinct_keys_User_jsonD)
  from h have dm: "distinct (map fst m)" using quiz_session_masteries_distinct by blast
  from h onComplete_stored [OF _ du, of a now s m a'] obtain sd where
    u': "user a' = Some (updatedUser now a u sd s m)"
    "stored_record ''id'' (localStorage a') (user_id u) = Some (User_json (updatedUser now a u sd s m))"
    by auto
  have "map_of (conceptMastery (updatedUser now a u sd s m)) c = Some (Num (min 100 (x' + y)))"
    using merge_masteries_number [OF dm, of c y "conceptMastery u" x'] h
    by (simp add: updatedUser_def)
  then have "js_get (conceptMastery (updatedUser now a u sd s m)) c = Some (Num (min 100 (x' + y)))"
    by (rule js_get_own)
  with u' show "\<exists>u'. stored_record ''id'' (localStorage a') (user_id u) = Some (User_json u')
         \<and> user a' = Some u'
         \<and> js_get (conceptMastery u') c = Some (Num (min 100 (x' + y)))"
    by blast
qed

text \<open>
  C1 as stated fails: a user whose stored mastery of a concept is 50 answers one question on
  it wrongly. The session's entry for the concept is \<open>max 0 (0 - 5) = 0\<close>, and the stored
  mastery after the session is still 50, not 45.
\<close>

theorem wrong_answer_keeps_stored_mastery:
  "stored_record ''id''
      (signed_in (User_json ((new_user ''u1'' ''ann'')\<lparr>conceptMastery := [(''c1'', Num 50)]\<rparr>))) ''u1''
     = Some (User_json ((new_user ''u1'' ''ann'')\<lparr>conceptMastery := [(''c1'', Num 50)]\<rparr>))
   \<and> quiz_session [question_on ''c1''] [(''x'', Inr (graded False))] QuizView_init
       = (Complete (0, [(''c1'', Num 0)]), [])
   \<and> \<not> isl (onComplete ''t''
         (quiz_app ((new_user ''u1'' ''ann'')\<lparr>conceptMastery := [(''c1'', Num 50)]\<rparr>)
            [question_on ''c1'']
            (signed_in (User_json ((new_user ''u1'' ''ann'')\<lparr>conceptMastery := [(''c1'', Num 50)]\<rparr>))))
         0 [(''c1'', Num 0)])
   \<and> stored_record ''id''
        (localStorage (projr (onComplete ''t''
           (quiz_app ((new_user ''u1'' ''ann'')\<lparr>conceptMastery := [(''c1'', Num 50)]\<rparr>)
              [question_on ''c1'']
              (signed_in (User_json ((new_user ''u1'' ''ann'')\<lparr>conceptMastery := [(''c1'', Num 50)]\<rparr>))))
           0 [(''c1'', Num 0)]))) ''u1''
       = Some (User_json ((new_user ''u1'' ''ann'')
           \<lparr>quizHistory := [\<lparr>date = ''t'', quiz_score = 0, total = 1, sheetId = Some ''s1''\<rparr>],
            conceptMastery := [(''c1'', Num 50)]\<rparr>))
   \<and> max 0 (50 - 5) \<noteq> (50 :: int)"
proof -
  let ?u = "(new_user ''u1'' ''ann'')\<lparr>conceptMastery := [(''c1'', Num 50)]\<rparr>"
  let ?st = "signed_in (User_json ?u)"
  let ?a = "quiz_app ?u [question_on ''c1''] ?st"
  let ?sd = "\<lparr>sheet_id = ''s1'', title = ''Cells''\<rparr>"
  let ?u' = "(new_user ''u1'' ''ann'')
           \<lparr>quizHistory := [\<lparr>date = ''t'', quiz_score = 0, total = 1, sheetId = Some ''s1''\<rparr>],
            conceptMastery := [(''c1'', Num 50)]\<rparr>"
  have i: "user_id ?u = ''u1''" by (simp add: new_user_def)
  have d: "distinct (map fst (conceptMastery ?u))" by simp
  note r = signed_in_reads [OF distinct_keys_User_json [OF d] User_json_id]
  have 0: "stored_record ''id'' ?st ''u1'' = Some (User_json ?u)" using r(3) i by simp
  have 1: "quiz_session [question_on ''c1''] [(''x'', Inr (graded False))] QuizView_init
     = (Complete (0, [(''c1'', Num 0)]), [])"
    by (simp add: session_defs inherited_def)
  have u: "user ?a = Some ?u" "studyData ?a = Some ?sd" "localStorage ?a = ?st"
    by (simp_all add: quiz_app_def)
  have hp: "has_prop ''id'' (JStr (user_id ?u)) (User_json ?u)"
    by (simp add: has_prop_def User_json_id)
  have e: "updatedUser ''t'' ?a ?u ?sd 0 [(''c1'', Num 0)] = ?u'"
    by (simp add: updatedUser_def quiz_app_def new_user_def or0_def js_get_def js_set_def
        js_add_def Math_min_def to_number_def)
  from onComplete_single [OF u(1,2) d, of "User_json ?u" "''t''" 0 "[(''c1'', Num 0)]"] r(1) hp
  obtain a' where 2: "onComplete ''t'' ?a 0 [(''c1'', Num 0)] = Inr a'"
    and 3: "stored_record ''id'' (localStorage a') ''u1'' = Some (User_json ?u')"
    unfolding u(3) e i by auto
  from 0 1 2 3 show ?thesis by (simp del: quiz_session.simps)
qed

theorem wrong_answer_lowers_session_adjustment_witness:
  "trim (answer (QuizView_init\<lparr>answer := ''x'', masteries := [(''c1'', Num 20)]\<rparr>)) \<noteq> []
   \<and> \<not> loading (QuizView_init\<lparr>answer := ''x'', masteries := [(''c1'', Num 20)]\<rparr>)
   \<and> current [question_on ''c1''] (QuizView_init\<lparr>answer := ''x'', masteries := [(''c1'', Num 20)]\<rparr>)
       = Some (question_on ''c1'')
   \<and> \<not> isCorrect (graded False)
   \<and> or0 (js_get (masteries (QuizView_init\<lparr>answer := ''x'', masteries := [(''c1'', Num 20)]\<rparr>))
         (conceptId (question_on ''c1''))) = Num 20
   \<and> js_get (masteries (handleSubmit [question_on ''c1''] (Inr (graded False))
        (QuizView_init\<lparr>answer := ''x'', masteries := [(''c1'', Num 20)]\<rparr>))) ''c1'' = Some (Num 15)
   \<and> stored_record ''id''
        (signed_in (User_json ((new_user ''u1'' ''ann'')\<lparr>conceptMastery := [(''c1'', Num 50)]\<rparr>))) ''u1''
       = Some (User_json ((new_user ''u1'' ''ann'')\<lparr>conceptMastery := [(''c1'', Num 50)]\<rparr>))
   \<and> quiz_session [question_on ''c1'', question_on ''c1'']
        [(''x'', Inr (graded True)), (''y'', Inr (graded False))] QuizView_init
       = (Complete (1, [(''c1'', Num 5)]), [])
   \<and> (\<exists>a'. onComplete ''t''
         (quiz_app ((new_user ''u1'' ''ann'')\<lparr>conceptMastery := [(''c1'', Num 50)]\<rparr>)
            [question_on ''c1'', question_on ''c1'']
            (signed_in (User_json ((new_user ''u1'' ''ann'')\<lparr>conceptMastery := [(''c1'', Num 50)]\<rparr>))))
         1 [(''c1'', Num 5)] = Inr a'
        \<and> (\<exists>u'. stored_record ''id'' (localStorage a') ''u1'' = Some (User_json u')
               \<and> user a' = Some u'
               \<and> js_get (conceptMastery u') ''c1'' = Some (Num 55)))"
proof -
  let ?v = "QuizView_init\<lparr>answer := ''x'', masteries := [(''c1'', Num 20)]\<rparr>"
  let ?u = "(new_user ''u1'' ''ann'')\<lparr>conceptMastery := [(''c1'', Num 50)]\<rparr>"
  let ?st = "signed_in (User_json ?u)"
  let ?qs = "[question_on ''c1'', question_on ''c1'']"
  let ?ins = "[(''x'', Inr (graded True)), (''y'', Inr (graded False))]"
  let ?a = "quiz_app ?u ?qs ?st"
  let ?sd = "\<lparr>sheet_id = ''s1'', title = ''Cells''\<rparr>"
  have 1: "trim (answer ?v) \<noteq> [] \<and> \<not> loading ?v
           \<and> current [question_on ''c1''] ?v = Some (question_on ''c1'') \<and> \<not> isCorrect (graded False)
           \<and> or0 (js_get (masteries ?v) (conceptId (question_on ''c1''))) = Num 20"
    by (simp add: session_defs)
  have i: "user_id ?u = ''u1''" by (simp add: new_user_def)
  have d: "distinct (map fst (conceptMastery ?u))" by simp
  note r = signed_in_reads [OF distinct_keys_User_json [OF d] User_json_id]
  have u: "user ?a = Some ?u" "studyData ?a = Some ?sd" "localStorage ?a = ?st" "questions ?a = ?qs"
    by (simp_all add: quiz_app_def)
  have 2: "stored_record ''id'' (localStorage ?a) (user_id ?u) = Some (User_json ?u)"
    using r(3) u(3) by simp
  have 3: "quiz_session (questions ?a) ?ins QuizView_init = (Complete (1, [(''c1'', Num 5)]), [])"
    unfolding u(4) by (simp add: session_defs inherited_def)
  have hp: "has_prop ''id'' (JStr (user_id ?u)) (User_json ?u)"
    by (simp add: has_prop_def User_json_id)
  from onComplete_single [OF u(1,2) d, of "User_json ?u" "''t''" 1 "[(''c1'', Num 5)]"] r(1) hp
  obtain a' where 4: "onComplete ''t'' ?a 1 [(''c1'', Num 5)] = Inr a'"
    unfolding u(3) by auto
  have 5: "map_of [(''c1'', Num 5)] ''c1'' = Some (Num 5)" by simp
  have 6: "or0 (js_get (conceptMastery ?u) ''c1'') = Num 50" by (simp add: or0_def js_get_def)
  note t = wrong_answer_lowers_session_adjustment
    [of ?v "[question_on ''c1'']" "question_on ''c1''" "graded False" 20 ?a ?u ?ins 1
        "[(''c1'', Num 5)]" "[]" "''t''" a' "''c1''" 5 50]
  from t 1 have 7: "js_get (masteries (handleSubmit [question_on ''c1''] (Inr (graded False)) ?v)) ''c1''
        = Some (Num 15)"
    by (simp add: question_on_def)
  from t u(1) 2 3 4 5 6 have 8: "\<exists>u'. stored_record ''id'' (localStorage a') ''u1'' = Some (User_json u')
               \<and> user a' = Some u' \<and> js_get (conceptMastery u') ''c1'' = Some (Num 55)"
    unfolding i by simp
  from 1 2 3 4 7 8 show ?thesis unfolding u i by blast
qed




text \<open>
  C3. A user with an empty mastery map answers three questions on the concept \<^verbatim>\<open>c1\<close>:
  right, right, wrong. The session's map holds 15 for the concept, and so does the mastery
  map of the user's record that the user list in the storage holds afterwards.
\<close>

theorem two_right_one_wrong_gives_15:
  assumes "conceptId q1 = ''c1''" "conceptId q2 = ''c1''" "conceptId q3 = ''c1''"
    and "trim a1 \<noteq> []" "trim a2 \<noteq> []" "trim a3 \<noteq> []"
    and "isCorrect f1" "isCorrect f2" "\<not> isCorrect f3"
    and "user a = Some u" "conceptMastery u = []" "questions a = [q1, q2, q3]"
    and "onComplete now a 2 [(''c1'', Num 15)] = Inr a'"
  shows "quiz_session (questions a) [(a1, Inr f1), (a2, Inr f2), (a3, Inr f3)] QuizView_init
           = (Complete (2, [(''c1'', Num 15)]), [])
         \<and> (\<exists>u'. user a' = Some u'
                \<and> stored_record ''id'' (localStorage a') (user_id u) = Some (User_json u')
                \<and> conceptMastery u' = [(''c1'', Num 15)]
                \<and> or0 (js_get (conceptMastery u') ''c1'') = Num 15)"
proof -
  have c: "inherited ''c1'' = None" by (simp add: inherited_def)
  have s: "quiz_session (questions a) [(a1, Inr f1), (a2, Inr f2), (a3, Inr f3)] QuizView_init
           = (Complete (2, [(''c1'', Num 15)]), [])"
    using assms(1-9,12) c
    by (simp add: handleSubmit_def next_question_def current_def QuizView_init_def or0_def
        js_get_def js_add_def js_sub_def Math_max_def to_number_def Let_def)
  have "distinct (map fst (conceptMastery u))" using assms(11) by simp
  from onComplete_stored [OF assms(10) this assms(13)] obtain sd where
    u': "user a' = Some (updatedUser now a u sd 2 [(''c1'', Num 15)])"
    "stored_record ''id'' (localStorage a') (user_id u)
       = Some (User_json (updatedUser now a u sd 2 [(''c1'', Num 15)]))" by auto
  have "conceptMastery (updatedUser now a u sd 2 [(''c1'', Num 15)]) = [(''c1'', Num 15)]"
    using assms(11) c
    by (simp add: updatedUser_def or0_def js_get_def js_set_def js_add_def Math_min_def
        to_number_def)
  with s u' show ?thesis by (simp add: or0_def js_get_def)
qed

theorem two_right_one_wrong_gives_15_witness:
  "quiz_session [question_on ''c1'', question_on ''c1'', question_on ''c1'']
      [(''a'', Inr (graded True)), (''b'', Inr (graded True)), (''c'', Inr (graded False))]
      QuizView_init
     = (Complete (2, [(''c1'', Num 15)]), [])
   \<and> getCurrentUser (signed_in (User_json (new_user ''u1'' ''ann'')))
       = Inr (User_json (new_user ''u1'' ''ann''))
   \<and> conceptMastery (new_user ''u1'' ''ann'') = []
   \<and> (\<exists>a'. onComplete ''t''
         (quiz_app (new_user ''u1'' ''ann'')
            [question_on ''c1'', question_on ''c1'', question_on ''c1'']
            (signed_in (User_json (new_user ''u1'' ''ann''))))
         2 [(''c1'', Num 15)] = Inr a'
        \<and> map_option conceptMastery (user a') = Some [(''c1'', Num 15)]
        \<and> stored_record ''id'' (localStorage a') ''u1'' = Some (User_json (the (user a'))))"
proof -
  let ?u = "new_user ''u1'' ''ann''"
  let ?st = "signed_in (User_json ?u)"
  let ?qs = "[question_on ''c1'', question_on ''c1'', question_on ''c1'']"
  let ?a = "quiz_app ?u ?qs ?st"
  let ?sd = "\<lparr>sheet_id = ''s1'', title = ''Cells''\<rparr>"
  have i: "user_id ?u = ''u1''" and e: "conceptMastery ?u = []" by (simp_all add: new_user_def)
  have d: "distinct (map fst (conceptMastery ?u))" using e by simp
  note r = signed_in_reads [OF distinct_keys_User_json [OF d] User_json_id]
  have u: "user ?a = Some ?u" "studyData ?a = Some ?sd" "localStorage ?a = ?st"
    "questions ?a = ?qs"
    by (simp_all add: quiz_app_def)
  have hp: "has_prop ''id'' (JStr (user_id ?u)) (User_json ?u)"
    by (simp add: has_prop_def User_json_id)
  from onComplete_single [OF u(1,2) d, of "User_json ?u" "''t''" 2 "[(''c1'', Num 15)]"] r(1) hp
  obtain a' where 1: "onComplete ''t'' ?a 2 [(''c1'', Num 15)] = Inr a'"
    unfolding u(3) by auto
  have "quiz_session (questions ?a)
          [(''a'', Inr (graded True)), (''b'', Inr (graded True)), (''c'', Inr (graded False))]
          QuizView_init = (Complete (2, [(''c1'', Num 15)]), [])
        \<and> (\<exists>u'. user a' = Some u'
                \<and> stored_record ''id'' (localStorage a') (user_id ?u) = Some (User_json u')
                \<and> conceptMastery u' = [(''c1'', Num 15)]
                \<and> or0 (js_get (conceptMastery u') ''c1'') = Num 15)"
    by (rule two_right_one_wrong_gives_15 [where now = "''t''" and u = ?u,
          OF _ _ _ _ _ _ _ _ _ u(1) e u(4) 1])
       (simp_all add: question_on_def graded_def trim_def is_space_def)
  with 1 r(2) e show ?thesis unfolding u(4) i by auto
qed

text \<open>
  C4, as the code has it. \<^verbatim>\<open>getUsers\<close> returns the empty list when the key is absent or
  holds the empty string, and the stored list when the value is the JSON text of one. When
  \<^verbatim>\<open>JSON.parse\<close> rejects the value, \<^verbatim>\<open>getUsers\<close> raises what the parser raised.
\<close>

theorem getUsers_reads_or_raises:
  "(getItem st ''mp_users'' = None \<or> getItem st ''mp_users'' = Some [] \<longrightarrow>
      getUsers st = Inr (JArr []))
   \<and> (getItem st ''mp_users'' = Some (JSON_stringify (JArr us)) \<and> distinct_keys (JArr us) \<longrightarrow>
      getUsers st = Inr (JArr us))
   \<and> (getItem st ''mp_users'' = Some s \<and> s \<noteq> [] \<and> JSON_parse s = Inl e \<longrightarrow>
      getUsers st = Inl e)"
proof (intro conjI impI)
  assume "getItem st ''mp_users'' = None \<or> getItem st ''mp_users'' = Some []"
  then show "getUsers st = Inr (JArr [])"
    by (auto simp: getUsers_def or_else_def JSON_parse_empty_array)
next
  assume h: "getItem st ''mp_users'' = Some (JSON_stringify (JArr us)) \<and> distinct_keys (JArr us)"
  then have "JSON_parse (JSON_stringify (JArr us)) = Inr (JArr us)"
    by (intro JSON_parse_stringify) simp
  with h show "getUsers st = Inr (JArr us)"
    by (simp add: getUsers_def or_else_def del: parser_simps)
next
  assume "getItem st ''mp_users'' = Some s \<and> s \<noteq> [] \<and> JSON_parse s = Inl e"
  then show "getUsers st = Inl e"
    by (simp add: getUsers_def or_else_def)
qed


text \<open>
  C4 as stated fails: with a truncated text under the key, \<^verbatim>\<open>getUsers\<close> raises
  \<^verbatim>\<open>SyntaxError\<close>; it does not return the empty list.
\<close>

theorem getUsers_raises_on_corrupted_value:
  \<open>getUsers (setItem Map.empty ''mp_users'' ''[{"id":"u1","username":"an'') = Inl SyntaxError\<close>
  by (simp add: getUsers_def getItem_def setItem_def or_else_def JSON_parse_def skip_ws_def
      is_ws_def)

theorem getUsers_reads_or_raises_witness:
  "getItem Map.empty ''mp_users'' = None
   \<and> getUsers Map.empty = Inr (JArr [])
   \<and> getItem (setItem Map.empty ''mp_users'' (JSON_stringify (JArr [User_json (new_user ''u1'' ''ann'')])))
        ''mp_users'' = Some (JSON_stringify (JArr [User_json (new_user ''u1'' ''ann'')]))
   \<and> distinct_keys (JArr [User_json (new_user ''u1'' ''ann'')])
   \<and> getUsers (setItem Map.empty ''mp_users'' (JSON_stringify (JArr [User_json (new_user ''u1'' ''ann'')])))
       = Inr (JArr [User_json (new_user ''u1'' ''ann'')])
   \<and> getItem (setItem Map.empty ''mp_users'' ''not json'') ''mp_users'' = Some ''not json''
   \<and> JSON_parse ''not json'' = Inl SyntaxError
   \<and> getUsers (setItem Map.empty ''mp_users'' ''not json'') = Inl SyntaxError"
proof -
  let ?us = "[User_json (new_user ''u1'' ''ann'')]"
  let ?st = "setItem Map.empty ''mp_users'' (JSON_stringify (JArr ?us))"
  let ?bad = "setItem Map.empty ''mp_users'' ''not json''"
  have 1: "getItem Map.empty ''mp_users'' = None" by (simp add: getItem_def)
  have 2: "getItem ?st ''mp_users'' = Some (JSON_stringify (JArr ?us))"
    by (simp add: getItem_def setItem_def del: JSON_stringify.simps)
  have 3: "distinct_keys (JArr ?us)"
    using distinct_keys_User_json [of "new_user ''u1'' ''ann''"] by (simp add: new_user_def)
  have 4: "getItem ?bad ''mp_users'' = Some ''not json''" by (simp add: getItem_def setItem_def)
  have 5: "JSON_parse ''not json'' = Inl SyntaxError"
    by (simp add: JSON_parse_def skip_ws_def is_ws_def strip_prefix_def)
  from getUsers_reads_or_raises [of Map.empty "[]" "[]" SyntaxError] 1
  have 6: "getUsers Map.empty = Inr (JArr [])" by blast
  from getUsers_reads_or_raises [of ?st ?us "[]" SyntaxError] 2 3
  have 7: "getUsers ?st = Inr (JArr ?us)" by blast
  from getUsers_reads_or_raises [of ?bad "[]" "''not json''" SyntaxError] 4 5
  have 8: "getUsers ?bad = Inl SyntaxError" by simp
  from 1 2 3 4 5 6 7 8 show ?thesis by blast
qed

text \<open>
  C5. The score a session completes with is the number of grading outcomes that are correct:
  in the later view when every question is answered once, in the earlier view for any run
  that completes (failed gradings are answered again, the countdown may end the run early).
  Hence two sessions whose outcomes are a permutation of each other complete with the same
  score.
\<close>

theorem session_score_counts_correct_answers:
  "(qs \<noteq> [] \<and> length ins = length qs \<and> (\<forall>(a, r) \<in> set ins. trim a \<noteq> []) \<longrightarrow>
      (\<exists>m. quiz_session qs ins QuizView_init = (Complete (correct_count (map snd ins), m), [])))
   \<and> (qs \<noteq> [] \<and> (\<forall>e \<in> set evs. answered e)
        \<and> quiz_session_basic qs isExam evs (QuizView_basic_init qs isExam) = (Complete s, []) \<longrightarrow>
      s = correct_count (concat (map event_result evs)))
   \<and> (qs \<noteq> [] \<and> length ins = length qs \<and> (\<forall>(a, r) \<in> set ins. trim a \<noteq> [])
        \<and> (\<forall>(a, r) \<in> set ins'. trim a \<noteq> []) \<and> mset (map snd ins') = mset (map snd ins) \<longrightarrow>
      (\<exists>m m'. quiz_session qs ins QuizView_init = (Complete (correct_count (map snd ins), m), [])
            \<and> quiz_session qs ins' QuizView_init = (Complete (correct_count (map snd ins), m'), [])))
   \<and> (qs \<noteq> [] \<and> (\<forall>e \<in> set evs. answered e) \<and> (\<forall>e \<in> set evs'. answered e)
        \<and> mset (concat (map event_result evs')) = mset (concat (map event_result evs))
        \<and> quiz_session_basic qs isExam evs (QuizView_basic_init qs isExam) = (Complete s, [])
        \<and> quiz_session_basic qs isExam evs' (QuizView_basic_init qs isExam) = (Complete s', []) \<longrightarrow>
      s' = s)"
proof (intro conjI impI)
  assume "qs \<noteq> [] \<and> length ins = length qs \<and> (\<forall>(a, r) \<in> set ins. trim a \<noteq> [])"
  then show "\<exists>m. quiz_session qs ins QuizView_init = (Complete (correct_count (map snd ins), m), [])"
    using quiz_session_complete by blast
next
  assume "qs \<noteq> [] \<and> (\<forall>e \<in> set evs. answered e)
        \<and> quiz_session_basic qs isExam evs (QuizView_basic_init qs isExam) = (Complete s, [])"
  then show "s = correct_count (concat (map event_result evs))"
    using quiz_session_basic_complete by blast
next
  assume h: "qs \<noteq> [] \<and> length ins = length qs \<and> (\<forall>(a, r) \<in> set ins. trim a \<noteq> [])
        \<and> (\<forall>(a, r) \<in> set ins'. trim a \<noteq> []) \<and> mset (map snd ins') = mset (map snd ins)"
  then have "length (map snd ins') = length (map snd ins)" by (metis mset_eq_length)
  with h have l: "length ins' = length qs" by simp
  from h have c: "correct_count (map snd ins') = correct_count (map snd ins)"
    by (intro correct_count_mset) simp
  from h obtain m where
    1: "quiz_session qs ins QuizView_init = (Complete (correct_count (map snd ins), m), [])"
    using quiz_session_complete by blast
  from h l obtain m' where
    "quiz_session qs ins' QuizView_init = (Complete (correct_count (map snd ins'), m'), [])"
    using quiz_session_complete by blast
  with 1 c show "\<exists>m m'. quiz_session qs ins QuizView_init = (Complete (correct_count (map snd ins), m), [])
            \<and> quiz_session qs ins' QuizView_init = (Complete (correct_count (map snd ins), m'), [])"
    by auto
next
  assume h: "qs \<noteq> [] \<and> (\<forall>e \<in> set evs. answered e) \<and> (\<forall>e \<in> set evs'. answered e)
        \<and> mset (concat (map event_result evs')) = mset (concat (map event_result evs))
        \<and> quiz_session_basic qs isExam evs (QuizView_basic_init qs isExam) = (Complete s, [])
        \<and> quiz_session_basic qs isExam evs' (QuizView_basic_init qs isExam) = (Complete s', [])"
  then have "s = correct_count (concat (map event_result evs))"
    "s' = correct_count (concat (map event_result evs'))"
    using quiz_session_basic_complete by blast+
  moreover from h have "correct_count (concat (map event_result evs'))
      = correct_count (concat (map event_result evs))"
    by (intro correct_count_mset) simp
  ultimately show "s' = s" by simp
qed

theorem session_score_counts_correct_answers_witness:
  "quiz_session [question_on ''c1'', question_on ''c2'']
      [(''a'', Inr (graded True)), (''b'', Inr (graded False))] QuizView_init
     = (Complete (1, [(''c1'', Num 10), (''c2'', Num 0)]), [])
   \<and> quiz_session [question_on ''c1'', question_on ''c2'']
      [(''b'', Inr (graded False)), (''a'', Inr (graded True))] QuizView_init
     = (Complete (1, [(''c1'', Num 0), (''c2'', Num 10)]), [])
   \<and> correct_count (map snd [(''a'', Inr (graded True)), (''b'', Inr (graded False))]) = 1
   \<and> quiz_session_basic [question_on ''c1'', question_on ''c2''] False
        [Answer ''a'' (Inl ServiceError), Answer ''a'' (Inr (graded True)),
         Answer ''b'' (Inr (graded False))]
        (QuizView_basic_init [question_on ''c1'', question_on ''c2''] False)
     = (Complete 1, [])
   \<and> quiz_session_basic [question_on ''c1'', question_on ''c2''] False
        [Answer ''b'' (Inr (graded False)), Answer ''a'' (Inl ServiceError),
         Answer ''a'' (Inr (graded True))]
        (QuizView_basic_init [question_on ''c1'', question_on ''c2''] False)
     = (Complete 1, [])"
proof -
  let ?qs = "[question_on ''c1'', question_on ''c2'']"
  let ?ins = "[(''a'', Inr (graded True)), (''b'', Inr (graded False))]"
  let ?ins' = "[(''b'', Inr (graded False)), (''a'', Inr (graded True))]"
  let ?evs = "[Answer ''a'' (Inl ServiceError), Answer ''a'' (Inr (graded True)),
         Answer ''b'' (Inr (graded False))]"
  let ?evs' = "[Answer ''b'' (Inr (graded False)), Answer ''a'' (Inl ServiceError),
         Answer ''a'' (Inr (graded True))]"
  have c: "correct_count (map snd ?ins) = 1"
    by (simp add: correct_count_def is_correct_def graded_def)
  have e1: "quiz_session_basic ?qs False ?evs (QuizView_basic_init ?qs False) = (Complete 1, [])"
    by (simp add: basic_session_defs)
  have e2: "quiz_session_basic ?qs False ?evs' (QuizView_basic_init ?qs False) = (Complete 1, [])"
    by (simp add: basic_session_defs)
  have n: "?qs \<noteq> [] \<and> length ?ins = length ?qs \<and> (\<forall>(a, r) \<in> set ?ins. trim a \<noteq> [])
        \<and> (\<forall>(a, r) \<in> set ?ins'. trim a \<noteq> []) \<and> mset (map snd ?ins') = mset (map snd ?ins)"
    by (simp add: trim_def is_space_def add.commute)
  have b: "?qs \<noteq> [] \<and> (\<forall>e \<in> set ?evs. answered e) \<and> (\<forall>e \<in> set ?evs'. answered e)
        \<and> mset (concat (map event_result ?evs')) = mset (concat (map event_result ?evs))"
    by (simp add: answered_def trim_def is_space_def add.commute)
  note t = session_score_counts_correct_answers
    [of ?qs ?ins ?evs False 1 ?ins' ?evs' 1]
  from t n c obtain m m' where
    "quiz_session ?qs ?ins QuizView_init = (Complete (1, m), [])"
    "quiz_session ?qs ?ins' QuizView_init = (Complete (1, m'), [])"
    by auto
  moreover have "quiz_session ?qs ?ins QuizView_init = (Complete (1, [(''c1'', Num 10), (''c2'', Num 0)]), [])"
    "quiz_session ?qs ?ins' QuizView_init = (Complete (1, [(''c1'', Num 0), (''c2'', Num 10)]), [])"
    by (simp_all add: session_defs inherited_def)
  ultimately show ?thesis using c e1 e2 by simp
qed

text \<open>
  C6. \<^verbatim>\<open>saveUser\<close> is an upsert on the identity (\<^verbatim>\<open>id\<close> in the later version,
  \<^verbatim>\<open>username\<close> in the earlier): on a stored list without \<^verbatim>\<open>null\<close> entries, the first
  entry with the identity of the user is replaced in place, and the user is appended when
  there is none. Saving the same user twice leaves the storage as saving it once does,
  whatever the storage held (when the first call raises, so does the pair, and nothing is
  written). The mastery map of a user is a JavaScript object, so no key occurs in it twice.
\<close>

theorem saveUser_upserts_and_is_idempotent:
  "(getUsers st = Inr (JArr us) \<and> JNull \<notin> set us \<longrightarrow>
      saveUser st (User_json u) =
        Inr (setItem st ''mp_users'' (JSON_stringify
          (JArr (upsert (has_prop ''id'' (JStr (user_id u))) (User_json u) us))))
      \<and> saveUser_basic st (User_basic_json b) =
        Inr (setItem st ''mp_users'' (JSON_stringify
          (JArr (upsert (has_prop ''username'' (JStr (username_basic b))) (User_basic_json b) us)))))
   \<and> (distinct (map fst (conceptMastery u)) \<longrightarrow>
        (case saveUser st (User_json u) of Inl e \<Rightarrow> Inl e | Inr st1 \<Rightarrow> saveUser st1 (User_json u))
          = saveUser st (User_json u))
   \<and> (case saveUser_basic st (User_basic_json b) of
         Inl e \<Rightarrow> Inl e | Inr st1 \<Rightarrow> saveUser_basic st1 (User_basic_json b))
       = saveUser_basic st (User_basic_json b)"
proof (intro conjI impI)
  assume h: "getUsers st = Inr (JArr us) \<and> JNull \<notin> set us"
  then show "saveUser st (User_json u) =
        Inr (setItem st ''mp_users'' (JSON_stringify
          (JArr (upsert (has_prop ''id'' (JStr (user_id u))) (User_json u) us))))"
    unfolding saveUser_def by (intro saveUser_by_upsert User_json_id) simp_all
  from h show "saveUser_basic st (User_basic_json b) =
        Inr (setItem st ''mp_users'' (JSON_stringify
          (JArr (upsert (has_prop ''username'' (JStr (username_basic b))) (User_basic_json b) us))))"
    unfolding saveUser_basic_def by (intro saveUser_by_upsert User_basic_json_username) simp_all
next
  assume "distinct (map fst (conceptMastery u))"
  then have "distinct_keys (User_json u)" by (rule distinct_keys_User_json)
  moreover have "same_prop ''id'' (User_json u) (User_json u) = Inr True"
    by (simp add: same_prop_def User_json_id)
  ultimately show "(case saveUser st (User_json u) of
        Inl e \<Rightarrow> Inl e | Inr st1 \<Rightarrow> saveUser st1 (User_json u)) = saveUser st (User_json u)"
    unfolding saveUser_def by (rule saveUser_by_idempotent)
next
  have "same_prop ''username'' (User_basic_json b) (User_basic_json b) = Inr True"
    by (simp add: same_prop_def User_basic_json_username)
  with distinct_keys_User_basic_json
  show "(case saveUser_basic st (User_basic_json b) of
         Inl e \<Rightarrow> Inl e | Inr st1 \<Rightarrow> saveUser_basic st1 (User_basic_json b))
       = saveUser_basic st (User_basic_json b)"
    unfolding saveUser_basic_def by (rule saveUser_by_idempotent)
qed


theorem saveUser_upserts_and_is_idempotent_witness:
  "getUsers (setItem Map.empty ''mp_users''
       (JSON_stringify (JArr [User_json (new_user ''u1'' ''ann'')])))
     = Inr (JArr [User_json (new_user ''u1'' ''ann'')])
   \<and> JNull \<notin> set [User_json (new_user ''u1'' ''ann'')]
   \<and> saveUser (setItem Map.empty ''mp_users''
         (JSON_stringify (JArr [User_json (new_user ''u1'' ''ann'')])))
       (User_json ((new_user ''u1'' ''ann'')\<lparr>conceptMastery := [(''c1'', Num 10)]\<rparr>))
     = Inr (setItem (setItem Map.empty ''mp_users''
              (JSON_stringify (JArr [User_json (new_user ''u1'' ''ann'')]))) ''mp_users''
         (JSON_stringify
           (JArr [User_json ((new_user ''u1'' ''ann'')\<lparr>conceptMastery := [(''c1'', Num 10)]\<rparr>)])))
   \<and> saveUser_basic (setItem Map.empty ''mp_users''
         (JSON_stringify (JArr [User_json (new_user ''u1'' ''ann'')])))
       (User_basic_json (new_user_basic ''u2'' ''bob''))
     = Inr (setItem (setItem Map.empty ''mp_users''
              (JSON_stringify (JArr [User_json (new_user ''u1'' ''ann'')]))) ''mp_users''
         (JSON_stringify
           (JArr [User_json (new_user ''u1'' ''ann''),
                  User_basic_json (new_user_basic ''u2'' ''bob'')])))
   \<and> distinct (map fst (conceptMastery ((new_user ''u1'' ''ann'')\<lparr>conceptMastery := [(''c1'', Num 10)]\<rparr>)))
   \<and> (case saveUser (setItem Map.empty ''mp_users''
               (JSON_stringify (JArr [User_json (new_user ''u1'' ''ann'')])))
             (User_json ((new_user ''u1'' ''ann'')\<lparr>conceptMastery := [(''c1'', Num 10)]\<rparr>)) of
         Inl e \<Rightarrow> Inl e
       | Inr st1 \<Rightarrow> saveUser st1 (User_json ((new_user ''u1'' ''ann'')\<lparr>conceptMastery := [(''c1'', Num 10)]\<rparr>)))
       = Inr (setItem (setItem Map.empty ''mp_users''
              (JSON_stringify (JArr [User_json (new_user ''u1'' ''ann'')]))) ''mp_users''
         (JSON_stringify
           (JArr [User_json ((new_user ''u1'' ''ann'')\<lparr>conceptMastery := [(''c1'', Num 10)]\<rparr>)])))"
proof -
  let ?ann = "new_user ''u1'' ''ann''"
  let ?u = "?ann\<lparr>conceptMastery := [(''c1'', Num 10)]\<rparr>"
  let ?b = "new_user_basic ''u2'' ''bob''"
  let ?us = "[User_json ?ann]"
  let ?st = "setItem Map.empty ''mp_users'' (JSON_stringify (JArr ?us))"
  have "distinct_keys (User_json ?ann)"
    by (rule distinct_keys_User_json) (simp add: new_user_def)
  then have 1: "getUsers ?st = Inr (JArr ?us)"
    by (intro getUsers_after_save) simp
  have 2: "JNull \<notin> set ?us" by (simp add: User_json_def)
  have 3: "distinct (map fst (conceptMastery ?u))" by simp
  have a: "has_prop ''id'' (JStr (user_id ?u)) (User_json ?ann)"
    by (simp add: has_prop_def User_json_id new_user_def)
  have b: "\<not> has_prop ''username'' (JStr (username_basic ?b)) (User_json ?ann)"
    by (simp add: has_prop_def User_json_def get_prop_def new_user_def new_user_basic_def)
  note t = saveUser_upserts_and_is_idempotent [of ?st ?us ?u ?b]
  from t 1 2 a have 4: "saveUser ?st (User_json ?u)
      = Inr (setItem ?st ''mp_users'' (JSON_stringify (JArr [User_json ?u])))"
    by (simp del: JSON_stringify.simps)
  from t 1 2 b have 5: "saveUser_basic ?st (User_basic_json ?b)
      = Inr (setItem ?st ''mp_users'' (JSON_stringify (JArr [User_json ?ann, User_basic_json ?b])))"
    by (simp del: JSON_stringify.simps)
  from t 3 have 6: "(case saveUser ?st (User_json ?u) of
         Inl e \<Rightarrow> Inl e | Inr st1 \<Rightarrow> saveUser st1 (User_json ?u)) = saveUser ?st (User_json ?u)"
    by blast
  from 1 2 3 4 5 6 show ?thesis by (simp only:) simp
qed

text \<open>
  C7 does not hold of the later version. \<^verbatim>\<open>onComplete\<close> merges the session's map into
  the record the application holds and saves the result over the stored record, but it
  never writes the current user (\<^verbatim>\<open>finishQuiz\<close> of the earlier version does, with
  \<^verbatim>\<open>DB.setCurrentUser(updatedUser)\<close>), and the application starts from the current user
  (\<^verbatim>\<open>useState(DB.getCurrentUser())\<close>). A user signs in and completes a session on
  \<^verbatim>\<open>c1\<close>: the stored record holds 10 for \<^verbatim>\<open>c1\<close>, the current user is still the record
  of the sign-in. The page is loaded again, so the application holds that record, and the
  user completes a session on \<^verbatim>\<open>c2\<close>, whose map has no entry for \<^verbatim>\<open>c1\<close>: the stored
  record afterwards has no mastery for \<^verbatim>\<open>c1\<close>, and has lost the first session's entry
  of the history as well.
\<close>

theorem session_after_reload_drops_stored_mastery:
  "quiz_session [question_on ''c1''] [(''x'', Inr (graded True))] QuizView_init
     = (Complete (1, [(''c1'', Num 10)]), [])
   \<and> \<not> isl (onComplete ''t1''
         (quiz_app (new_user ''u1'' ''ann'') [question_on ''c1'']
            (signed_in (User_json (new_user ''u1'' ''ann'')))) 1 [(''c1'', Num 10)])
   \<and> stored_record ''id''
        (localStorage (projr (onComplete ''t1''
           (quiz_app (new_user ''u1'' ''ann'') [question_on ''c1'']
              (signed_in (User_json (new_user ''u1'' ''ann'')))) 1 [(''c1'', Num 10)]))) ''u1''
       = Some (User_json ((new_user ''u1'' ''ann'')
           \<lparr>quizHistory := [\<lparr>date = ''t1'', quiz_score = 1, total = 1, sheetId = Some ''s1''\<rparr>],
            conceptMastery := [(''c1'', Num 10)]\<rparr>))
   \<and> getCurrentUser
        (localStorage (projr (onComplete ''t1''
           (quiz_app (new_user ''u1'' ''ann'') [question_on ''c1'']
              (signed_in (User_json (new_user ''u1'' ''ann'')))) 1 [(''c1'', Num 10)])))
       = Inr (User_json (new_user ''u1'' ''ann''))
   \<and> quiz_session [question_on ''c2''] [(''y'', Inr (graded True))] QuizView_init
       = (Complete (1, [(''c2'', Num 10)]), [])
   \<and> ''c1'' \<notin> fst ` set [(''c2'', Num 10)]
   \<and> \<not> isl (onComplete ''t2''
         (quiz_app (new_user ''u1'' ''ann'') [question_on ''c2'']
            (localStorage (projr (onComplete ''t1''
               (quiz_app (new_user ''u1'' ''ann'') [question_on ''c1'']
                  (signed_in (User_json (new_user ''u1'' ''ann'')))) 1 [(''c1'', Num 10)]))))
         1 [(''c2'', Num 10)])
   \<and> stored_record ''id''
        (localStorage (projr (onComplete ''t2''
           (quiz_app (new_user ''u1'' ''ann'') [question_on ''c2'']
              (localStorage (projr (onComplete ''t1''
                 (quiz_app (new_user ''u1'' ''ann'') [question_on ''c1'']
                    (signed_in (User_json (new_user ''u1'' ''ann'')))) 1 [(''c1'', Num 10)]))))
           1 [(''c2'', Num 10)]))) ''u1''
       = Some (User_json ((new_user ''u1'' ''ann'')
           \<lparr>quizHistory := [\<lparr>date = ''t2'', quiz_score = 1, total = 1, sheetId = Some ''s1''\<rparr>],
            conceptMastery := [(''c2'', Num 10)]\<rparr>))"
proof -
  let ?u = "new_user ''u1'' ''ann''"
  let ?st = "signed_in (User_json ?u)"
  let ?a = "quiz_app ?u [question_on ''c1''] ?st"
  let ?sd = "\<lparr>sheet_id = ''s1'', title = ''Cells''\<rparr>"
  let ?u1 = "?u\<lparr>quizHistory := [\<lparr>date = ''t1'', quiz_score = 1, total = 1, sheetId = Some ''s1''\<rparr>],
            conceptMastery := [(''c1'', Num 10)]\<rparr>"
  let ?u2 = "?u\<lparr>quizHistory := [\<lparr>date = ''t2'', quiz_score = 1, total = 1, sheetId = Some ''s1''\<rparr>],
            conceptMastery := [(''c2'', Num 10)]\<rparr>"
  have i: "user_id ?u = ''u1''" and e: "conceptMastery ?u = []" by (simp_all add: new_user_def)
  have d: "distinct (map fst (conceptMastery ?u))" using e by simp
  note r = signed_in_reads [OF distinct_keys_User_json [OF d] User_json_id]
  have c: "inherited ''c1'' = None" "inherited ''c2'' = None" by (simp_all add: inherited_def)
  have s1: "quiz_session [question_on ''c1''] [(''x'', Inr (graded True))] QuizView_init
     = (Complete (1, [(''c1'', Num 10)]), [])"
    using c(1) by (simp add: session_defs)
  have s2: "quiz_session [question_on ''c2''] [(''y'', Inr (graded True))] QuizView_init
     = (Complete (1, [(''c2'', Num 10)]), [])"
    using c(2) by (simp add: session_defs)
  have u: "user ?a = Some ?u" "studyData ?a = Some ?sd" "localStorage ?a = ?st"
    by (simp_all add: quiz_app_def)
  have hp: "has_prop ''id'' (JStr (user_id ?u)) (User_json ?u)"
    by (simp add: has_prop_def User_json_id)
  have e1: "updatedUser ''t1'' ?a ?u ?sd 1 [(''c1'', Num 10)] = ?u1"
    using c(1)
    by (simp add: updatedUser_def quiz_app_def new_user_def or0_def js_get_def js_set_def
        js_add_def Math_min_def to_number_def)
  from onComplete_single [OF u(1,2) d, of "User_json ?u" "''t1''" 1 "[(''c1'', Num 10)]"] r(1) hp
  obtain a1 where 1: "onComplete ''t1'' ?a 1 [(''c1'', Num 10)] = Inr a1"
    and g1: "getUsers (localStorage a1) = Inr (JArr [User_json ?u1])"
    and r1: "stored_record ''id'' (localStorage a1) ''u1'' = Some (User_json ?u1)"
    and c1: "getCurrentUser (localStorage a1) = getCurrentUser ?st"
    unfolding u(3) e1 i by auto
  let ?b = "quiz_app ?u [question_on ''c2''] (localStorage a1)"
  have v: "user ?b = Some ?u" "studyData ?b = Some ?sd" "localStorage ?b = localStorage a1"
    by (simp_all add: quiz_app_def)
  have hp1: "has_prop ''id'' (JStr (user_id ?u)) (User_json ?u1)"
    using User_json_id [of ?u1] by (simp add: has_prop_def)
  have e2: "updatedUser ''t2'' ?b ?u ?sd 1 [(''c2'', Num 10)] = ?u2"
    using c(2)
    by (simp add: updatedUser_def quiz_app_def new_user_def or0_def js_get_def js_set_def
        js_add_def Math_min_def to_number_def)
  from onComplete_single [OF v(1,2) d, of "User_json ?u1" "''t2''" 1 "[(''c2'', Num 10)]"] g1 hp1
  obtain a2 where 2: "onComplete ''t2'' ?b 1 [(''c2'', Num 10)] = Inr a2"
    and r2: "stored_record ''id'' (localStorage a2) ''u1'' = Some (User_json ?u2)"
    unfolding v(3) e2 i by auto
  have n: "''c1'' \<notin> fst ` set [(''c2'', Num 10)]" by simp
  from s1 s2 1 r1 c1 r(2) 2 r2 n show ?thesis by (simp del: quiz_session.simps)
qed

text \<open>
  C8. The logout button of either version writes \<^verbatim>\<open>null\<close> as the current user and does
  not touch the user list: the text under \<^verbatim>\<open>mp_users\<close> is the same before and after, so
  \<^verbatim>\<open>getUsers\<close> reads the same, and \<^verbatim>\<open>getCurrentUser\<close> reads \<^verbatim>\<open>null\<close>.
\<close>

theorem logout_clears_session_and_keeps_user_list:
  "getItem (localStorage (logout a)) ''mp_users'' = getItem (localStorage a) ''mp_users''
   \<and> getUsers (localStorage (logout a)) = getUsers (localStorage a)
   \<and> getCurrentUser (localStorage (logout a)) = Inr JNull
   \<and> user (logout a) = None
   \<and> getItem (localStorage_basic (logout_basic b)) ''mp_users''
       = getItem (localStorage_basic b) ''mp_users''
   \<and> getUsers (localStorage_basic (logout_basic b)) = getUsers (localStorage_basic b)
   \<and> getCurrentUser (localStorage_basic (logout_basic b)) = Inr JNull
   \<and> user_basic (logout_basic b) = None"
  by (simp add: logout_def logout_basic_def getUsers_def getCurrentUser_def setCurrentUser_def
      getItem_def setItem_def or_else_def JSON_parse_null del: parser_simps)

text \<open>
  C9, as the code has it. When a session completes while the record of the user that the
  application holds is the record the user list stores, the stored record afterwards has
  the history of before followed by exactly one new entry. In the later version the entry
  holds the time, the score, the number of questions and the id of the sheet. In the
  earlier version it holds the time, the score and the number of questions, and no sheet
  id (a sheet has no id there); the current user is the same new record.
\<close>

theorem completed_session_is_appended_to_history:
  "(user a = Some u
      \<and> stored_record ''id'' (localStorage a) (user_id u) = Some (User_json u)
      \<and> onComplete now a s m = Inr a' \<longrightarrow>
      (\<exists>u' sd. studyData a = Some sd \<and> user a' = Some u'
         \<and> stored_record ''id'' (localStorage a') (user_id u) = Some (User_json u')
         \<and> quizHistory u' = quizHistory u @
              [\<lparr>date = now, quiz_score = s, total = int (length (questions a)),
                sheetId = Some (sheet_id sd)\<rparr>]))
   \<and> (user_basic b = Some w
        \<and> stored_record ''username'' (localStorage_basic b) (username_basic w)
            = Some (User_basic_json w)
        \<and> finishQuiz now b s = Inr b' \<longrightarrow>
      (\<exists>w'. user_basic b' = Some w'
         \<and> stored_record ''username'' (localStorage_basic b') (username_basic w)
             = Some (User_basic_json w')
         \<and> getCurrentUser (localStorage_basic b') = Inr (User_basic_json w')
         \<and> quizHistory_basic w' = quizHistory_basic w @
              [\<lparr>date = now, quiz_score = s, total = int (length (questions_basic b)),
                sheetId = None\<rparr>]))"
proof (intro conjI impI)
  assume h: "user a = Some u
      \<and> stored_record ''id'' (localStorage a) (user_id u) = Some (User_json u)
      \<and> onComplete now a s m = Inr a'"
  then have "distinct_keys (User_json u)" using stored_record_distinct_keys by blast
  then have du: "distinct (map fst (conceptMastery u))" by (rule distinct_keys_User_jsonD)
  from h onComplete_stored [OF _ du, of a now s m a'] obtain sd where
    u': "studyData a = Some sd" "user a' = Some (updatedUser now a u sd s m)"
    "stored_record ''id'' (localStorage a') (user_id u) = Some (User_json (updatedUser now a u sd s m))"
    by auto
  have "quizHistory (updatedUser now a u sd s m) = quizHistory u @
      [\<lparr>date = now, quiz_score = s, total = int (length (questions a)),
        sheetId = Some (sheet_id sd)\<rparr>]"
    by (simp add: updatedUser_def)
  with u' show "\<exists>u' sd. studyData a = Some sd \<and> user a' = Some u'
         \<and> stored_record ''id'' (localStorage a') (user_id u) = Some (User_json u')
         \<and> quizHistory u' = quizHistory u @
              [\<lparr>date = now, quiz_score = s, total = int (length (questions a)),
                sheetId = Some (sheet_id sd)\<rparr>]"
    by blast
next
  assume h: "user_basic b = Some w
        \<and> stored_record ''username'' (localStorage_basic b) (username_basic w)
            = Some (User_basic_json w)
        \<and> finishQuiz now b s = Inr b'"
  then have f: "user_basic b = Some w" "finishQuiz now b s = Inr b'" by simp_all
  have "quizHistory_basic (updatedUser_basic now b w s) = quizHistory_basic w @
      [\<lparr>date = now, quiz_score = s, total = int (length (questions_basic b)), sheetId = None\<rparr>]"
    by (simp add: updatedUser_basic_def)
  with finishQuiz_stored [OF f]
  show "\<exists>w'. user_basic b' = Some w'
         \<and> stored_record ''username'' (localStorage_basic b') (username_basic w)
             = Some (User_basic_json w')
         \<and> getCurrentUser (localStorage_basic b') = Inr (User_basic_json w')
         \<and> quizHistory_basic w' = quizHistory_basic w @
              [\<lparr>date = now, quiz_score = s, total = int (length (questions_basic b)),
                sheetId = None\<rparr>]"
    by blast
qed


text \<open>
  C9 as stated fails in the earlier version: the entry that \<^verbatim>\<open>finishQuiz\<close> appends has
  no sheet id.
\<close>

theorem basic_history_record_has_no_sheet_id:
  "\<not> isl (finishQuiz ''2024-05-01T10:00:00.000Z''
       (quiz_app_basic (new_user_basic ''u1'' ''ann'') [question_on ''c1''] Map.empty) 1)
   \<and> map_option (map sheetId \<circ> quizHistory_basic)
       (user_basic (projr (finishQuiz ''2024-05-01T10:00:00.000Z''
          (quiz_app_basic (new_user_basic ''u1'' ''ann'') [question_on ''c1''] Map.empty) 1)))
     = Some [None]"
  by (simp add: finishQuiz_fresh_storage updatedUser_basic_def new_user_basic_def
      del: JSON_stringify.simps)

theorem completed_session_is_appended_to_history_witness:
  "stored_record ''id''
      (signed_in (User_json ((new_user ''u1'' ''ann'')\<lparr>quizHistory :=
         [\<lparr>date = ''d0'', quiz_score = 3, total = 10, sheetId = Some ''s0''\<rparr>]\<rparr>))) ''u1''
     = Some (User_json ((new_user ''u1'' ''ann'')\<lparr>quizHistory :=
         [\<lparr>date = ''d0'', quiz_score = 3, total = 10, sheetId = Some ''s0''\<rparr>]\<rparr>))
   \<and> (\<exists>a'. onComplete ''t''
       (quiz_app ((new_user ''u1'' ''ann'')\<lparr>quizHistory :=
            [\<lparr>date = ''d0'', quiz_score = 3, total = 10, sheetId = Some ''s0''\<rparr>]\<rparr>)
          [question_on ''c1'']
          (signed_in (User_json ((new_user ''u1'' ''ann'')\<lparr>quizHistory :=
            [\<lparr>date = ''d0'', quiz_score = 3, total = 10, sheetId = Some ''s0''\<rparr>]\<rparr>))))
       1 [(''c1'', Num 10)] = Inr a'
      \<and> map_option quizHistory (user a')
          = Some [\<lparr>date = ''d0'', quiz_score = 3, total = 10, sheetId = Some ''s0''\<rparr>,
                  \<lparr>date = ''t'', quiz_score = 1, total = 1, sheetId = Some ''s1''\<rparr>]
      \<and> stored_record ''id'' (localStorage a') ''u1'' = Some (User_json (the (user a'))))
   \<and> stored_record ''username''
        (signed_in (User_basic_json ((new_user_basic ''u1'' ''ann'')\<lparr>quizHistory_basic :=
           [\<lparr>date = ''d0'', quiz_score = 3, total = 10, sheetId = None\<rparr>]\<rparr>))) ''ann''
       = Some (User_basic_json ((new_user_basic ''u1'' ''ann'')\<lparr>quizHistory_basic :=
           [\<lparr>date = ''d0'', quiz_score = 3, total = 10, sheetId = None\<rparr>]\<rparr>))
   \<and> (\<exists>b'. finishQuiz ''t''
       (quiz_app_basic ((new_user_basic ''u1'' ''ann'')\<lparr>quizHistory_basic :=
            [\<lparr>date = ''d0'', quiz_score = 3, total = 10, sheetId = None\<rparr>]\<rparr>)
          [question_on ''c1'']
          (signed_in (User_basic_json ((new_user_basic ''u1'' ''ann'')\<lparr>quizHistory_basic :=
            [\<lparr>date = ''d0'', quiz_score = 3, total = 10, sheetId = None\<rparr>]\<rparr>))))
       1 = Inr b'
      \<and> map_option quizHistory_basic (user_basic b')
          = Some [\<lparr>date = ''d0'', quiz_score = 3, total = 10, sheetId = None\<rparr>,
                  \<lparr>date = ''t'', quiz_score = 1, total = 1, sheetId = None\<rparr>]
      \<and> stored_record ''username'' (localStorage_basic b') ''ann''
          = Some (User_basic_json (the (user_basic b')))
      \<and> getCurrentUser (localStorage_basic b') = Inr (User_basic_json (the (user_basic b'))))"
proof -
  let ?u = "(new_user ''u1'' ''ann'')\<lparr>quizHistory :=
            [\<lparr>date = ''d0'', quiz_score = 3, total = 10, sheetId = Some ''s0''\<rparr>]\<rparr>"
  let ?st = "signed_in (User_json ?u)"
  let ?a = "quiz_app ?u [question_on ''c1''] ?st"
  let ?sd = "\<lparr>sheet_id = ''s1'', title = ''Cells''\<rparr>"
  let ?w = "(new_user_basic ''u1'' ''ann'')\<lparr>quizHistory_basic :=
            [\<lparr>date = ''d0'', quiz_score = 3, total = 10, sheetId = None\<rparr>]\<rparr>"
  let ?sb = "signed_in (User_basic_json ?w)"
  let ?b = "quiz_app_basic ?w [question_on ''c1''] ?sb"
  have i: "user_id ?u = ''u1''" "username_basic ?w = ''ann''"
    by (simp_all add: new_user_def new_user_basic_def)
  have d: "distinct (map fst (conceptMastery ?u))" by (simp add: new_user_def)
  note r = signed_in_reads [OF distinct_keys_User_json [OF d] User_json_id]
  note rb = signed_in_reads [OF distinct_keys_User_basic_json User_basic_json_username, of ?w]
  have 1: "user ?a = Some ?u" "studyData ?a = Some ?sd" "localStorage ?a = ?st"
    "questions ?a = [question_on ''c1'']"
    by (simp_all add: quiz_app_def)
  have 2: "user_basic ?b = Some ?w" "questions_basic ?b = [question_on ''c1'']"
    "localStorage_basic ?b = ?sb"
    by (simp_all add: quiz_app_basic_def)
  have hp: "has_prop ''id'' (JStr (user_id ?u)) (User_json ?u)"
    by (simp add: has_prop_def User_json_id)
  have hb: "has_prop ''username'' (JStr (username_basic ?w)) (User_basic_json ?w)"
    by (simp add: has_prop_def User_basic_json_username)
  from onComplete_single [OF 1(1,2) d, of "User_json ?u" "''t''" 1 "[(''c1'', Num 10)]"] r(1) hp
  obtain a' where 3: "onComplete ''t'' ?a 1 [(''c1'', Num 10)] = Inr a'"
    unfolding 1(3) by auto
  from finishQuiz_single [OF 2(1), of "User_basic_json ?w" "''t''" 1] rb(1) hb
  obtain b' where 4: "finishQuiz ''t'' ?b 1 = Inr b'"
    unfolding 2(3) by auto
  have sa: "stored_record ''id'' (localStorage ?a) (user_id ?u) = Some (User_json ?u)"
    unfolding 1(3) by (rule r(3))
  have sb: "stored_record ''username'' (localStorage_basic ?b) (username_basic ?w)
      = Some (User_basic_json ?w)"
    unfolding 2(3) by (rule rb(3))
  note t = completed_session_is_appended_to_history
    [of ?a ?u "''t''" 1 "[(''c1'', Num 10)]" a' ?b ?w b']
  from t 1 sa 3 have 5: "map_option quizHistory (user a')
          = Some [\<lparr>date = ''d0'', quiz_score = 3, total = 10, sheetId = Some ''s0''\<rparr>,
                  \<lparr>date = ''t'', quiz_score = 1, total = 1, sheetId = Some ''s1''\<rparr>]
      \<and> stored_record ''id'' (localStorage a') ''u1'' = Some (User_json (the (user a')))"
    unfolding i by (auto simp: new_user_def)
  from t 2 sb 4 have 6: "map_option quizHistory_basic (user_basic b')
          = Some [\<lparr>date = ''d0'', quiz_score = 3, total = 10, sheetId = None\<rparr>,
                  \<lparr>date = ''t'', quiz_score = 1, total = 1, sheetId = None\<rparr>]
      \<and> stored_record ''username'' (localStorage_basic b') ''ann''
          = Some (User_basic_json (the (user_basic b')))
      \<and> getCurrentUser (localStorage_basic b') = Inr (User_basic_json (the (user_basic b')))"
    unfolding i by (auto simp: new_user_basic_def)
  from sa sb 3 4 5 6 show ?thesis unfolding 1(3) 2(3) i by blast
qed

text \<open>
  C10. When the grading call throws, the submission leaves the session score and the
  session's mastery adjustments as they were, in both versions of the view: a failure is
  not counted as a wrong answer.
\<close>

theorem grading_failure_changes_neither_score_nor_masteries:
  "score (handleSubmit qs (Inl e) v) = score v
   \<and> masteries (handleSubmit qs (Inl e) v) = masteries v
   \<and> score_basic (handleSubmit_basic qs (Inl e) w) = score_basic w"
  by (simp add: handleSubmit_def handleSubmit_basic_def)


end
